theory Spec2Isabelle
  imports Complex_Main "HOL-Library.AList"
begin

section \<open>JavaScript values\<close>

text \<open>
  The AI draft is whatever \<^verbatim>\<open>JSON.parse\<close> returns: a dynamically typed value.
  Strings are lists of 8-bit code units. \<open>JUndefined\<close> is not a JSON value; it is what
  reading an absent property gives.
\<close>

datatype jsv =
    JUndefined
  | JNull
  | JBool bool
  | JNum rat
  | JStr string
  | JArr "jsv list"
  | JObj "(string \<times> jsv) list"

text \<open>The conversion to boolean behind \<^verbatim>\<open>!x\<close>, \<^verbatim>\<open>x || y\<close> and \<^verbatim>\<open>if (x)\<close>.\<close>

fun truthy :: "jsv \<Rightarrow> bool" where
  "truthy JUndefined = False"
| "truthy JNull = False"
| "truthy (JBool b) = b"
| "truthy (JNum n) = (n \<noteq> 0)"
| "truthy (JStr s) = (s \<noteq> [])"
| "truthy (JArr xs) = True"
| "truthy (JObj kvs) = True"

fun isArray :: "jsv \<Rightarrow> bool" where
  "isArray (JArr xs) = True"
| "isArray v = False"

text \<open>
  Exceptions raised inside the parsing block of \<^verbatim>\<open>generateSkincareRoutine\<close>:
  \<^item> \<open>TruncatedError\<close>: \<^verbatim>\<open>new Error('AI response was truncated. Please try again.')\<close>;
  \<^item> \<open>SyntaxError m\<close>: thrown by \<^verbatim>\<open>JSON.parse\<close>;
  \<^item> \<open>StructureError\<close>:
    \<^verbatim>\<open>new Error('Invalid response structure: missing or invalid steps array')\<close>;
  \<^item> \<open>TypeError\<close>: a property read on \<^verbatim>\<open>null\<close> or \<^verbatim>\<open>undefined\<close>, or a call
    of something that is not a function.
\<close>

datatype exn = TruncatedError | SyntaxError string | StructureError | TypeError

text \<open>
  Reading a property whose name is none of the built-in ones (\<^verbatim>\<open>steps\<close>, \<^verbatim>\<open>tips\<close>,
  \<^verbatim>\<open>productName\<close>, ...): an own property of an object, \<^verbatim>\<open>undefined\<close> on every other
  value, and a TypeError on \<^verbatim>\<open>null\<close> and \<^verbatim>\<open>undefined\<close>.
\<close>

fun own_prop :: "jsv \<Rightarrow> string \<Rightarrow> jsv" where
  "own_prop (JObj kvs) k = (case map_of kvs k of None \<Rightarrow> JUndefined | Some v \<Rightarrow> v)"
| "own_prop v k = JUndefined"

definition get_prop :: "jsv \<Rightarrow> string \<Rightarrow> exn + jsv" where
  "get_prop v k = (if v = JNull \<or> v = JUndefined then Inl TypeError else Inr (own_prop v k))"

text \<open>Assignment \<^verbatim>\<open>o.k = v\<close>; the code only assigns to values that passed the
  \<^verbatim>\<open>steps\<close> check, which are objects.\<close>

fun set_prop :: "jsv \<Rightarrow> string \<Rightarrow> jsv \<Rightarrow> jsv" where
  "set_prop (JObj kvs) k v = JObj (AList.update k v kvs)"
| "set_prop x k v = x"

section \<open>Strings\<close>

text \<open>White space of \<^verbatim>\<open>String.prototype.trim\<close> and of the regular expression class
  \<^verbatim>\<open>\s\<close>, among the 8-bit code units: TAB, LF, VT, FF, CR, SP, NBSP.\<close>

definition is_space :: "char \<Rightarrow> bool" where
  "is_space c = (c \<in> {CHR 0x09, CHR 0x0A, CHR 0x0B, CHR 0x0C, CHR 0x0D, CHR 0x20, CHR 0xA0})"

definition trim_end :: "string \<Rightarrow> string" where
  "trim_end s = rev (dropWhile is_space (rev s))"

definition trim :: "string \<Rightarrow> string" where
  "trim s = trim_end (dropWhile is_space s)"

text \<open>\<^verbatim>\<open>toLowerCase\<close> on 8-bit code units: A-Z and the Latin-1 capitals.\<close>

definition lower_char :: "char \<Rightarrow> char" where
  "lower_char c =
     (let n = (of_char c :: nat)
      in if (65 \<le> n \<and> n \<le> 90) \<or> (192 \<le> n \<and> n \<le> 222 \<and> n \<noteq> 215)
         then char_of (n + 32) else c)"

definition toLowerCase :: "string \<Rightarrow> string" where
  "toLowerCase s = map lower_char s"

definition startsWith :: "string \<Rightarrow> string \<Rightarrow> bool" where
  "startsWith s p = (take (length p) s = p)"

definition endsWith :: "string \<Rightarrow> string \<Rightarrow> bool" where
  "endsWith s p = (length p \<le> length s \<and> drop (length s - length p) s = p)"

text \<open>\<^verbatim>\<open>s.includes(t)\<close>: \<open>t\<close> occurs in \<open>s\<close> as a contiguous run.\<close>

fun str_includes :: "string \<Rightarrow> string \<Rightarrow> bool" where
  "str_includes [] t = (t = [])"
| "str_includes (c # cs) t = (startsWith (c # cs) t \<or> str_includes cs t)"

section \<open>The response parser of generateSkincareRoutine\<close>

text \<open>\<^verbatim>\<open>s.replace(/^```json\s*/i, '')\<close>\<close>

definition strip_json_fence :: "string \<Rightarrow> string" where
  "strip_json_fence s =
     (if startsWith s [CHR 0x60, CHR 0x60, CHR 0x60] \<and> toLowerCase (take 4 (drop 3 s)) = ''json''
      then dropWhile is_space (drop 7 s) else s)"

text \<open>\<^verbatim>\<open>s.replace(/^```\s*/i, '')\<close>\<close>

definition strip_open_fence :: "string \<Rightarrow> string" where
  "strip_open_fence s =
     (if startsWith s [CHR 0x60, CHR 0x60, CHR 0x60]
      then dropWhile is_space (drop 3 s) else s)"

text \<open>\<^verbatim>\<open>s.replace(/\s*```$/i, '')\<close>: the leftmost match starts where the white space
  before the final fence starts.\<close>

definition strip_close_fence :: "string \<Rightarrow> string" where
  "strip_close_fence s =
     (if endsWith s [CHR 0x60, CHR 0x60, CHR 0x60]
      then trim_end (take (length s - 3) s) else s)"

definition clean_response :: "string \<Rightarrow> string" where
  "clean_response aiResponse =
     strip_close_fence (strip_open_fence (strip_json_fence (trim aiResponse)))"

text \<open>\<^verbatim>\<open>s.match(/\{[\s\S]*\}/)\<close>: from the first opening brace to the last closing
  brace after it, when there is one.\<close>

definition json_match :: "string \<Rightarrow> string option" where
  "json_match s =
     (case dropWhile (\<lambda>c. c \<noteq> CHR ''{'') s of
        [] \<Rightarrow> None
      | b # body \<Rightarrow>
          if CHR ''}'' \<in> set body
          then Some (b # rev (dropWhile (\<lambda>c. c \<noteq> CHR ''}'') (rev body)))
          else None)"

text \<open>
  The \<^verbatim>\<open>try\<close> block of lines 161-201. \<open>parse\<close> stands for the platform's
  \<^verbatim>\<open>JSON.parse\<close>: \<open>Inl m\<close> is its SyntaxError with message \<open>m\<close>.
\<close>

definition decode :: "(string \<Rightarrow> string + jsv) \<Rightarrow> string \<Rightarrow> exn + jsv" where
  "decode parse s = (case parse s of Inl m \<Rightarrow> Inl (SyntaxError m) | Inr v \<Rightarrow> Inr v)"

definition extract_and_decode :: "(string \<Rightarrow> string + jsv) \<Rightarrow> string \<Rightarrow> exn + jsv" where
  "extract_and_decode parse cleanedResponse =
     (case json_match cleanedResponse of
        Some jsonString \<Rightarrow>
          if \<not> endsWith (trim jsonString) ''}'' then Inl TruncatedError
          else decode parse jsonString
      | None \<Rightarrow> decode parse cleanedResponse)"

definition backfill :: "string \<Rightarrow> jsv \<Rightarrow> jsv \<Rightarrow> jsv" where
  "backfill k d parsedResponse =
     (if \<not> truthy (own_prop parsedResponse k) then set_prop parsedResponse k d else parsedResponse)"

definition validate_response :: "jsv \<Rightarrow> exn + jsv" where
  "validate_response parsedResponse =
     (case get_prop parsedResponse ''steps'' of
        Inl e \<Rightarrow> Inl e
      | Inr steps \<Rightarrow>
          if \<not> truthy steps \<or> \<not> isArray steps then Inl StructureError
          else Inr (backfill ''tips'' (JArr [])
                     (backfill ''estimatedDuration'' (JNum 19)
                       (backfill ''compatibilityWarnings'' (JArr []) parsedResponse))))"

definition parse_ai_response :: "(string \<Rightarrow> string + jsv) \<Rightarrow> string \<Rightarrow> exn + jsv" where
  "parse_ai_response parse aiResponse =
     (case extract_and_decode parse (clean_response aiResponse) of
        Inl e \<Rightarrow> Inl e
      | Inr parsedResponse \<Rightarrow> validate_response parsedResponse)"

section \<open>A reference decoder for JSON texts\<close>

text \<open>
  \<^verbatim>\<open>JSON.parse\<close> belongs to the platform, so the parser above takes it as a parameter.
  Where a concrete decoder is needed (a text to call valid, an input to evaluate), this
  one is used: the JSON grammar over 8-bit code units, numbers as rationals, a
  \<^verbatim>\<open>\u\<close> escape accepted below 0x100, a repeated key keeping its last value. The
  recursion is over a fuel that the length of the text always covers.
\<close>

definition json_ws :: "char \<Rightarrow> bool" where
  "json_ws c = (c \<in> {CHR 0x20, CHR 0x09, CHR 0x0A, CHR 0x0D})"

definition skip_ws :: "string \<Rightarrow> string" where
  "skip_ws s = dropWhile json_ws s"

definition is_digit :: "char \<Rightarrow> bool" where
  "is_digit c = (48 \<le> (of_char c :: nat) \<and> (of_char c :: nat) \<le> 57)"

definition digits_value :: "string \<Rightarrow> nat" where
  "digits_value ds = foldl (\<lambda>n c. 10 * n + (of_char c - 48)) 0 ds"

definition hex_digit :: "char \<Rightarrow> nat option" where
  "hex_digit c =
     (let n = (of_char c :: nat)
      in if 48 \<le> n \<and> n \<le> 57 then Some (n - 48)
         else if 65 \<le> n \<and> n \<le> 70 then Some (n - 55)
         else if 97 \<le> n \<and> n \<le> 102 then Some (n - 87)
         else None)"

definition unescape :: "char \<Rightarrow> char option" where
  "unescape e =
     (if e = CHR 0x22 \<or> e = CHR 0x5C \<or> e = CHR ''/'' then Some e
      else if e = CHR ''b'' then Some (CHR 0x08)
      else if e = CHR ''f'' then Some (CHR 0x0C)
      else if e = CHR ''n'' then Some (CHR 0x0A)
      else if e = CHR ''r'' then Some (CHR 0x0D)
      else if e = CHR ''t'' then Some (CHR 0x09)
      else None)"

definition unicode_escape :: "string \<Rightarrow> char option" where
  "unicode_escape hs =
     (case map hex_digit hs of
        [Some a, Some b, Some c, Some d] \<Rightarrow>
          if a = 0 \<and> b = 0 then Some (char_of (16 * c + d)) else None
      | _ \<Rightarrow> None)"

fun parse_chars :: "string \<Rightarrow> (string \<times> string) option" where
  "parse_chars [] = None"
| "parse_chars (c # cs) =
     (if c = CHR 0x22 then Some ([], cs)
      else if c = CHR 0x5C then
        (case cs of
           [] \<Rightarrow> None
         | e # cs' \<Rightarrow>
             if e = CHR ''u'' then
               (case cs' of
                  h1 # h2 # h3 # h4 # r \<Rightarrow>
                    (case unicode_escape [h1, h2, h3, h4] of
                       None \<Rightarrow> None
                     | Some u \<Rightarrow> map_option (\<lambda>(s, r'). (u # s, r')) (parse_chars r))
                | _ \<Rightarrow> None)
             else
               (case unescape e of
                  None \<Rightarrow> None
                | Some u \<Rightarrow> map_option (\<lambda>(s, r'). (u # s, r')) (parse_chars cs')))
      else if (of_char c :: nat) < 32 then None
      else map_option (\<lambda>(s, r'). (c # s, r')) (parse_chars cs))"

definition parse_int_part :: "string \<Rightarrow> (string \<times> string) option" where
  "parse_int_part s =
     (let ds = takeWhile is_digit s
      in if ds = [] \<or> (1 < length ds \<and> hd ds = CHR ''0'') then None
         else Some (ds, dropWhile is_digit s))"

definition parse_frac_part :: "string \<Rightarrow> (string \<times> string) option" where
  "parse_frac_part s =
     (case s of
        [] \<Rightarrow> Some ([], s)
      | c # cs \<Rightarrow>
          if c = CHR ''.'' then
            (if takeWhile is_digit cs = [] then None
             else Some (takeWhile is_digit cs, dropWhile is_digit cs))
          else Some ([], s))"

definition parse_exp_part :: "string \<Rightarrow> (int \<times> string) option" where
  "parse_exp_part s =
     (case s of
        [] \<Rightarrow> Some (0, s)
      | c # cs \<Rightarrow>
          if c = CHR ''e'' \<or> c = CHR ''E'' then
            (let neg = (case cs of [] \<Rightarrow> False | x # _ \<Rightarrow> x = CHR ''-'');
                 cs' = (case cs of [] \<Rightarrow> [] | x # xs \<Rightarrow> if x = CHR ''-'' \<or> x = CHR ''+'' then xs else cs);
                 ds = takeWhile is_digit cs'
             in if ds = [] then None
                else Some (if neg then - int (digits_value ds) else int (digits_value ds),
                           dropWhile is_digit cs'))
          else Some (0, s))"

definition scale10 :: "rat \<Rightarrow> int \<Rightarrow> rat" where
  "scale10 m e = (if 0 \<le> e then m * 10 ^ nat e else m / 10 ^ nat (- e))"

definition parse_number :: "string \<Rightarrow> (rat \<times> string) option" where
  "parse_number s =
     (let neg = (case s of [] \<Rightarrow> False | c # _ \<Rightarrow> c = CHR ''-'');
          s1 = (if neg then tl s else s)
      in case parse_int_part s1 of
           None \<Rightarrow> None
         | Some (ip, s2) \<Rightarrow>
             (case parse_frac_part s2 of
                None \<Rightarrow> None
              | Some (fp, s3) \<Rightarrow>
                  (case parse_exp_part s3 of
                     None \<Rightarrow> None
                   | Some (e, s4) \<Rightarrow>
                       (let m = of_nat (digits_value (ip @ fp)) :: rat;
                            v = scale10 m (e - int (length fp))
                        in Some (if neg then - v else v, s4)))))"

definition parse_literal :: "string \<Rightarrow> (jsv \<times> string) option" where
  "parse_literal s =
     (if startsWith s ''true'' then Some (JBool True, drop 4 s)
      else if startsWith s ''false'' then Some (JBool False, drop 5 s)
      else if startsWith s ''null'' then Some (JNull, drop 4 s)
      else map_option (\<lambda>(n, r). (JNum n, r)) (parse_number s))"

definition make_object :: "(string \<times> jsv) list \<Rightarrow> jsv" where
  "make_object kvs = JObj (foldl (\<lambda>al (k, v). AList.update k v al) [] kvs)"

fun parse_value :: "nat \<Rightarrow> string \<Rightarrow> (jsv \<times> string) option"
  and parse_elements :: "nat \<Rightarrow> string \<Rightarrow> (jsv list \<times> string) option"
  and parse_members :: "nat \<Rightarrow> string \<Rightarrow> ((string \<times> jsv) list \<times> string) option"
where
  "parse_value 0 s = None"
| "parse_value (Suc n) s =
     (case skip_ws s of
        [] \<Rightarrow> None
      | c # cs \<Rightarrow>
          if c = CHR 0x22 then map_option (\<lambda>(str, r). (JStr str, r)) (parse_chars cs)
          else if c = CHR ''['' then
            (case skip_ws cs of
               [] \<Rightarrow> None
             | d # r \<Rightarrow>
                 if d = CHR '']'' then Some (JArr [], r)
                 else map_option (\<lambda>(vs, r'). (JArr vs, r')) (parse_elements n cs))
          else if c = CHR ''{'' then
            (case skip_ws cs of
               [] \<Rightarrow> None
             | d # r \<Rightarrow>
                 if d = CHR ''}'' then Some (JObj [], r)
                 else map_option (\<lambda>(kvs, r'). (make_object kvs, r')) (parse_members n cs))
          else parse_literal (c # cs))"
| "parse_elements 0 s = None"
| "parse_elements (Suc n) s =
     (case parse_value n s of
        None \<Rightarrow> None
      | Some (v, r) \<Rightarrow>
          (case skip_ws r of
             [] \<Rightarrow> None
           | c # r' \<Rightarrow>
               if c = CHR '','' then map_option (\<lambda>(vs, r''). (v # vs, r'')) (parse_elements n r')
               else if c = CHR '']'' then Some ([v], r')
               else None))"
| "parse_members 0 s = None"
| "parse_members (Suc n) s =
     (case skip_ws s of
        [] \<Rightarrow> None
      | q # s1 \<Rightarrow>
          if q \<noteq> CHR 0x22 then None
          else
            (case parse_chars s1 of
               None \<Rightarrow> None
             | Some (k, s2) \<Rightarrow>
                 (case skip_ws s2 of
                    [] \<Rightarrow> None
                  | col # s3 \<Rightarrow>
                      if col \<noteq> CHR '':'' then None
                      else
                        (case parse_value n s3 of
                           None \<Rightarrow> None
                         | Some (v, s4) \<Rightarrow>
                             (case skip_ws s4 of
                                [] \<Rightarrow> None
                              | c # s5 \<Rightarrow>
                                  if c = CHR '','' then
                                    map_option (\<lambda>(kvs, r). ((k, v) # kvs, r)) (parse_members n s5)
                                  else if c = CHR ''}'' then Some ([(k, v)], s5)
                                  else None)))))"

definition JSON_parse :: "string \<Rightarrow> string + jsv" where
  "JSON_parse s =
     (case parse_value (Suc (length s)) s of
        None \<Rightarrow> Inl ''Unexpected token or end of JSON input''
      | Some (v, r) \<Rightarrow>
          if skip_ws r = [] then Inr v
          else Inl ''Unexpected non-whitespace character after JSON'')"


text \<open>The characters a JSON value can begin with, and those it can end with.\<close>

definition value_start :: "char \<Rightarrow> bool" where
  "value_start c =
     (c \<in> {CHR 0x22, CHR ''['', CHR ''{'', CHR ''t'', CHR ''f'', CHR ''n'', CHR ''-''}
      \<or> is_digit c)"

definition value_end :: "char \<Rightarrow> bool" where
  "value_end c =
     (c \<in> {CHR 0x22, CHR '']'', CHR ''}'', CHR ''e'', CHR ''l''} \<or> is_digit c)"

text \<open>A text inside a code fence: three backticks, an optional language tag, white
  space, the text, white space, three backticks.\<close>

definition fence :: "string \<Rightarrow> string \<Rightarrow> string \<Rightarrow> string \<Rightarrow> string" where
  "fence lang ws1 ws2 text =
     [CHR 0x60, CHR 0x60, CHR 0x60] @ lang @ ws1 @ text @ ws2 @ [CHR 0x60, CHR 0x60, CHR 0x60]"

section \<open>Documents and collaborators\<close>

type_synonym oid = nat

text \<open>
  Modelled from the spec: the Product, RoutineStep, Routine and User documents
  (\<^verbatim>\<open>models/Product.js\<close>, \<^verbatim>\<open>models/Routine.js\<close> and \<^verbatim>\<open>models/User.js\<close> are not
  among the sources). The fields are those the spec's data model lists and the handlers
  read or write. An identifier stands for an ObjectId, compared through its canonical
  string. A step keeps the values the synthesis hands to \<^verbatim>\<open>Routine.create\<close>.
\<close>

record product =
  p_id :: oid
  p_user :: oid
  p_name :: string
  p_brand :: string
  p_type :: string
  p_usage :: string
  p_isActive :: bool

record step =
  stepNumber :: jsv
  productRef :: oid
  instruction :: jsv
  waitTime :: jsv

record routine_doc =
  r_user :: oid
  r_name :: string
  r_type :: string
  r_steps :: "step list"
  r_isAIGenerated :: bool
  r_compatibilityWarnings :: jsv

record routine = routine_doc +
  r_id :: oid

record user =
  u_id :: oid
  skinType :: jsv
  skinConcerns :: jsv

text \<open>The argument of \<^verbatim>\<open>generateSkincareRoutine\<close>; the prompt is a function of it.\<close>

record routine_request =
  rq_products :: "product list"
  rq_type :: string
  rq_skinType :: jsv
  rq_skinConcerns :: jsv

text \<open>
  What the code calls and does not define:
  \<^item> \<open>getGeminiResponse\<close>, the completion call, as a function of the request whose
    prompt it is sent (\<open>Inl m\<close>: it threw an error with message \<open>m\<close>);
  \<^item> \<open>json_parse\<close>, the platform's \<^verbatim>\<open>JSON.parse\<close>;
  \<^item> \<open>routine_valid\<close>, the schema validation of \<^verbatim>\<open>Routine.create\<close>;
  \<^item> \<open>create_product\<close> and \<open>update_product\<close>, the casting and validation of a request
    body against the Product schema by \<^verbatim>\<open>Product.create\<close> and
    \<^verbatim>\<open>Product.findByIdAndUpdate\<close> (\<open>Inl m\<close>: rejected).
\<close>

record platform =
  getGeminiResponse :: "routine_request \<Rightarrow> string + string"
  json_parse :: "string \<Rightarrow> string + jsv"
  routine_valid :: "routine_doc \<Rightarrow> bool"
  create_product :: "jsv \<Rightarrow> string + product"
  update_product :: "jsv \<Rightarrow> product \<Rightarrow> string + product"

datatype regen_error =
    ProviderError string
  | InvalidResponseFormat exn
  | Thrown exn
  | ValidationError

datatype db_op =
    ProductCreated oid
  | ProductUpdated oid
  | ProductDeleted oid
  | RoutineDeleted oid
  | RoutineSaved oid
  | RoutinesDeletedMany oid string
  | RoutineCreated oid

datatype log_line = NotEnoughProducts | CouldNotRegenerate string regen_error

text \<open>
  The state the handlers act on: the three collections, the next fresh identifier, the
  writes in the order they were made, the completion calls made, the console, and the
  users for whom a background regeneration was started. A read or write of a collection
  always succeeds here; what the code does when the store itself fails (the outer
  \<^verbatim>\<open>catch\<close> of \<^verbatim>\<open>autoRegenerateRoutines\<close>, the \<^verbatim>\<open>next(error)\<close> of a handler
  on a failed query) has no counterpart. A document that the schema rejects is the one
  failure of a write that is kept.
\<close>

record world =
  products :: "product list"
  routines :: "routine list"
  users :: "user list"
  next_oid :: oid
  oplog :: "db_op list"
  ai_calls :: "routine_request list"
  console :: "log_line list"
  pending :: "oid list"

section \<open>generateSkincareRoutine\<close>

definition generateSkincareRoutine ::
  "platform \<Rightarrow> routine_request \<Rightarrow> world \<Rightarrow> (regen_error + jsv) \<times> world" where
  "generateSkincareRoutine pf rq w =
     (let w1 = w\<lparr>ai_calls := ai_calls w @ [rq]\<rparr>
      in case getGeminiResponse pf rq of
           Inl m \<Rightarrow> (Inl (ProviderError m), w1)
         | Inr aiResponse \<Rightarrow>
             (case parse_ai_response (json_parse pf) aiResponse of
                Inl e \<Rightarrow> (Inl (InvalidResponseFormat e), w1)
              | Inr parsedResponse \<Rightarrow> (Inr parsedResponse, w1)))"

section \<open>Matching a suggested name against the catalog\<close>

definition tier1 :: "product \<Rightarrow> string \<Rightarrow> bool" where
  "tier1 p productName = (toLowerCase (p_name p) = toLowerCase productName)"

definition tier2 :: "product \<Rightarrow> string \<Rightarrow> bool" where
  "tier2 p productName = str_includes (toLowerCase productName) (toLowerCase (p_name p))"

definition tier3 :: "product \<Rightarrow> string \<Rightarrow> bool" where
  "tier3 p productName = str_includes (toLowerCase (p_name p)) (toLowerCase productName)"

definition matches :: "product \<Rightarrow> string \<Rightarrow> bool" where
  "matches p productName = (tier1 p productName \<or> tier2 p productName \<or> tier3 p productName)"

text \<open>\<^verbatim>\<open>products.find(p => ... || ... || ...)\<close> for a suggested name that is a string.\<close>

definition find_match :: "product list \<Rightarrow> string \<Rightarrow> product option" where
  "find_match ps productName = find (\<lambda>p. matches p productName) ps"

text \<open>\<^verbatim>\<open>aiStep.productName.toLowerCase()\<close>: a TypeError unless the step has a string there.\<close>

definition productName_of :: "jsv \<Rightarrow> exn + string" where
  "productName_of aiStep =
     (case get_prop aiStep ''productName'' of
        Inl e \<Rightarrow> Inl e
      | Inr v \<Rightarrow> (case v of JStr s \<Rightarrow> Inr s | _ \<Rightarrow> Inl TypeError))"

text \<open>The callback runs on the first product, if there is one, so that is when a
  malformed step throws.\<close>

definition matchingProduct :: "product list \<Rightarrow> jsv \<Rightarrow> exn + product option" where
  "matchingProduct ps aiStep =
     (if ps = [] then Inr None
      else case productName_of aiStep of
             Inl e \<Rightarrow> Inl e
           | Inr productName \<Rightarrow> Inr (find_match ps productName))"

definition bind_step :: "product list \<Rightarrow> jsv \<Rightarrow> exn + step option" where
  "bind_step ps aiStep =
     (case matchingProduct ps aiStep of
        Inl e \<Rightarrow> Inl e
      | Inr None \<Rightarrow> Inr None
      | Inr (Some p) \<Rightarrow>
          Inr (Some \<lparr>stepNumber = own_prop aiStep ''stepNumber'',
                     productRef = p_id p,
                     instruction = own_prop aiStep ''instruction'',
                     waitTime = (if truthy (own_prop aiStep ''waitTime'')
                                 then own_prop aiStep ''waitTime'' else JNum 0)\<rparr>))"

text \<open>The loop of lines 44-60.\<close>

fun bind_steps :: "product list \<Rightarrow> jsv list \<Rightarrow> exn + step list" where
  "bind_steps ps [] = Inr []"
| "bind_steps ps (aiStep # rest) =
     (case bind_step ps aiStep of
        Inl e \<Rightarrow> Inl e
      | Inr bound \<Rightarrow>
          (case bind_steps ps rest of
             Inl e \<Rightarrow> Inl e
           | Inr steps \<Rightarrow> Inr ((case bound of None \<Rightarrow> [] | Some s \<Rightarrow> [s]) @ steps)))"

section \<open>autoRegenerateRoutines\<close>

text \<open>The query for the existing AI routines (lines 25-28) reads a value the function
  never uses; it is left out.\<close>

definition find_active_products :: "oid \<Rightarrow> world \<Rightarrow> product list" where
  "find_active_products userId w = filter (\<lambda>p. p_user p = userId \<and> p_isActive p) (products w)"

definition findById_user :: "oid \<Rightarrow> world \<Rightarrow> user option" where
  "findById_user userId w = find (\<lambda>u. u_id u = userId) (users w)"

definition routineTypes :: "string list" where
  "routineTypes = [''morning'', ''night'']"

text \<open>\<^verbatim>\<open>type.charAt(0).toUpperCase() + type.slice(1)\<close>, for a first letter among a-z
  and the Latin-1 small letters whose capital is one code unit of Latin-1.\<close>

definition upper_char :: "char \<Rightarrow> char" where
  "upper_char c =
     (let n = (of_char c :: nat)
      in if (97 \<le> n \<and> n \<le> 122) \<or> (224 \<le> n \<and> n \<le> 254 \<and> n \<noteq> 247)
         then char_of (n - 32) else c)"

definition routine_name :: "string \<Rightarrow> string" where
  "routine_name t =
     ''AI Generated '' @ (case t of [] \<Rightarrow> [] | c # cs \<Rightarrow> upper_char c # cs) @ '' Routine''"

text \<open>Lines 36-60: the completion call and the binding; nothing is written yet.\<close>

definition draft_steps ::
  "platform \<Rightarrow> product list \<Rightarrow> user option \<Rightarrow> string \<Rightarrow> world
    \<Rightarrow> (regen_error + step list \<times> jsv) \<times> world" where
  "draft_steps pf ps usr t w =
     (case usr of
        None \<Rightarrow> (Inl (Thrown TypeError), w)
      | Some u \<Rightarrow>
          (case generateSkincareRoutine pf
                  \<lparr>rq_products = ps, rq_type = t, rq_skinType = skinType u,
                   rq_skinConcerns = skinConcerns u\<rparr> w of
             (Inl e, w1) \<Rightarrow> (Inl e, w1)
           | (Inr aiRoutineData, w1) \<Rightarrow>
               (case own_prop aiRoutineData ''steps'' of
                  JArr aiSteps \<Rightarrow>
                    (case bind_steps ps aiSteps of
                       Inl e \<Rightarrow> (Inl (Thrown e), w1)
                     | Inr steps \<Rightarrow> (Inr (steps, aiRoutineData), w1))
                | _ \<Rightarrow> (Inl (Thrown TypeError), w1))))"

text \<open>The completion calls one turn of the loop makes: one, unless the user is missing.\<close>

definition requests :: "product list \<Rightarrow> user option \<Rightarrow> string \<Rightarrow> routine_request list" where
  "requests ps usr t =
     (case usr of
        None \<Rightarrow> []
      | Some u \<Rightarrow> [\<lparr>rq_products = ps, rq_type = t, rq_skinType = skinType u,
                     rq_skinConcerns = skinConcerns u\<rparr>])"

definition is_ai_routine :: "oid \<Rightarrow> string \<Rightarrow> routine \<Rightarrow> bool" where
  "is_ai_routine userId t r = (r_user r = userId \<and> r_type r = t \<and> r_isAIGenerated r)"

definition deleteMany_ai :: "oid \<Rightarrow> string \<Rightarrow> world \<Rightarrow> world" where
  "deleteMany_ai userId t w =
     w\<lparr>routines := filter (\<lambda>r. \<not> is_ai_routine userId t r) (routines w),
       oplog := oplog w @ [RoutinesDeletedMany userId t]\<rparr>"

definition new_routine_doc :: "oid \<Rightarrow> string \<Rightarrow> step list \<Rightarrow> jsv \<Rightarrow> routine_doc" where
  "new_routine_doc userId t steps aiRoutineData =
     \<lparr>r_user = userId, r_name = routine_name t, r_type = t, r_steps = steps,
      r_isAIGenerated = True,
      r_compatibilityWarnings =
        (if truthy (own_prop aiRoutineData ''compatibilityWarnings'')
         then own_prop aiRoutineData ''compatibilityWarnings'' else JArr [])\<rparr>"

definition create_routine :: "routine_doc \<Rightarrow> world \<Rightarrow> world" where
  "create_routine d w =
     w\<lparr>routines := routines w @
          [\<lparr>r_user = r_user d, r_name = r_name d, r_type = r_type d, r_steps = r_steps d,
            r_isAIGenerated = r_isAIGenerated d,
            r_compatibilityWarnings = r_compatibilityWarnings d, r_id = next_oid w\<rparr>],
       next_oid := Suc (next_oid w),
       oplog := oplog w @ [RoutineCreated (next_oid w)]\<rparr>"

text \<open>One turn of the loop over the routine types, lines 34-84: \<open>True\<close> when the counter
  is incremented.\<close>

definition regenerate_type ::
  "platform \<Rightarrow> oid \<Rightarrow> product list \<Rightarrow> user option \<Rightarrow> string \<Rightarrow> world \<Rightarrow> bool \<times> world" where
  "regenerate_type pf userId ps usr t w =
     (case draft_steps pf ps usr t w of
        (Inl e, w1) \<Rightarrow> (False, w1\<lparr>console := console w1 @ [CouldNotRegenerate t e]\<rparr>)
      | (Inr (steps, aiRoutineData), w1) \<Rightarrow>
          if 0 < length steps then
            (let w2 = deleteMany_ai userId t w1;
                 d = new_routine_doc userId t steps aiRoutineData
             in if routine_valid pf d then (True, create_routine d w2)
                else (False, w2\<lparr>console := console w2 @ [CouldNotRegenerate t ValidationError]\<rparr>))
          else (False, w1))"

fun regenerate_loop ::
  "platform \<Rightarrow> oid \<Rightarrow> product list \<Rightarrow> user option \<Rightarrow> string list \<Rightarrow> nat \<Rightarrow> world \<Rightarrow> nat \<times> world" where
  "regenerate_loop pf userId ps usr [] regeneratedCount w = (regeneratedCount, w)"
| "regenerate_loop pf userId ps usr (t # ts) regeneratedCount w =
     (case regenerate_type pf userId ps usr t w of
        (ok, w') \<Rightarrow>
          regenerate_loop pf userId ps usr ts
            (if ok then regeneratedCount + 1 else regeneratedCount) w')"

fun digits_of :: "nat \<Rightarrow> string" where
  "digits_of n = (if n < 10 then [char_of (48 + n)] else digits_of (n div 10) @ [char_of (48 + n mod 10)])"

declare digits_of.simps [simp del]

text \<open>The object \<^verbatim>\<open>autoRegenerateRoutines\<close> resolves to.\<close>

record regen_result =
  regenerated :: bool
  reason :: "string option"
  count :: "nat option"
  message :: "string option"

definition autoRegenerateRoutines :: "platform \<Rightarrow> oid \<Rightarrow> world \<Rightarrow> regen_result \<times> world" where
  "autoRegenerateRoutines pf userId w =
     (let ps = find_active_products userId w
      in if length ps < 3 then
           (\<lparr>regenerated = False, reason = Some ''insufficient_products'', count = None,
             message = None\<rparr>,
            w\<lparr>console := console w @ [NotEnoughProducts]\<rparr>)
         else
           (case regenerate_loop pf userId ps (findById_user userId w) routineTypes 0 w of
              (regeneratedCount, w') \<Rightarrow>
                (\<lparr>regenerated = True, reason = None, count = Some regeneratedCount,
                  message = Some (digits_of regeneratedCount @ '' routine(s) regenerated'')\<rparr>,
                 w')))"

section \<open>The product handlers\<close>

text \<open>The JSON a handler answers with: the status and the fields of \<^verbatim>\<open>data\<close> that
  concern regeneration. \<open>Inl m\<close> is an error handed to \<^verbatim>\<open>next\<close>.\<close>

record response =
  status :: nat
  autoRegenerate :: "jsv option"
  routinesAffected :: "nat option"

definition findById_product :: "oid \<Rightarrow> world \<Rightarrow> product option" where
  "findById_product pid w = find (\<lambda>p. p_id p = pid) (products w)"

definition schedule_regeneration :: "oid \<Rightarrow> world \<Rightarrow> world" where
  "schedule_regeneration userId w = w\<lparr>pending := pending w @ [userId]\<rparr>"

text \<open>\<^verbatim>\<open>Product.create({...req.body, user: req.user._id})\<close>: the new product has a fresh
  identifier and the requesting user as its owner.\<close>

definition createProduct :: "platform \<Rightarrow> oid \<Rightarrow> jsv \<Rightarrow> world \<Rightarrow> (string + response) \<times> world" where
  "createProduct pf userId body w =
     (case create_product pf body of
        Inl m \<Rightarrow> (Inl m, w)
      | Inr p \<Rightarrow>
          (Inr \<lparr>status = 201, autoRegenerate = Some (JBool True), routinesAffected = None\<rparr>,
           schedule_regeneration userId
             (w\<lparr>products := products w @ [p\<lparr>p_id := next_oid w, p_user := userId\<rparr>],
                next_oid := Suc (next_oid w),
                oplog := oplog w @ [ProductCreated (next_oid w)]\<rparr>)))"

text \<open>\<^verbatim>\<open>req.body.type || req.body.usage !== undefined || req.body.isActive !== undefined\<close>\<close>

definition significantChange :: "jsv \<Rightarrow> jsv" where
  "significantChange body =
     (if truthy (own_prop body ''type'') then own_prop body ''type''
      else JBool (own_prop body ''usage'' \<noteq> JUndefined \<or> own_prop body ''isActive'' \<noteq> JUndefined))"

definition updateProduct ::
  "platform \<Rightarrow> oid \<Rightarrow> oid \<Rightarrow> jsv \<Rightarrow> world \<Rightarrow> (string + response) \<times> world" where
  "updateProduct pf userId pid body w =
     (case findById_product pid w of
        None \<Rightarrow> (Inr \<lparr>status = 404, autoRegenerate = None, routinesAffected = None\<rparr>, w)
      | Some product \<Rightarrow>
          if p_user product \<noteq> userId
          then (Inr \<lparr>status = 403, autoRegenerate = None, routinesAffected = None\<rparr>, w)
          else
            (case update_product pf body product of
               Inl m \<Rightarrow> (Inl m, w)
             | Inr p' \<Rightarrow>
                 (let w1 = w\<lparr>products := map (\<lambda>p. if p_id p = pid
                                                  then p'\<lparr>p_id := pid\<rparr>
                                                  else p) (products w),
                             oplog := oplog w @ [ProductUpdated pid]\<rparr>
                  in (Inr \<lparr>status = 200, autoRegenerate = Some (significantChange body),
                           routinesAffected = None\<rparr>,
                      if truthy (significantChange body)
                      then schedule_regeneration userId w1 else w1))))"

text \<open>Lines 277-300: the routines of the user that use the product, and their repair.\<close>

definition routinesWithProduct :: "oid \<Rightarrow> oid \<Rightarrow> world \<Rightarrow> routine list" where
  "routinesWithProduct userId pid w =
     filter (\<lambda>r. r_user r = userId \<and> pid \<in> set (map productRef (r_steps r))) (routines w)"

definition renumber :: "step list \<Rightarrow> step list" where
  "renumber steps =
     map (\<lambda>(index, s). s\<lparr>stepNumber := JNum (of_nat (index + 1))\<rparr>) (enumerate 0 steps)"

text \<open>\<^verbatim>\<open>routine.steps.filter(step => step.product.toString() !== req.params.id)\<close>\<close>

definition remaining_steps :: "oid \<Rightarrow> routine \<Rightarrow> step list" where
  "remaining_steps pid routine = filter (\<lambda>s. productRef s \<noteq> pid) (r_steps routine)"

definition repair_routine :: "oid \<Rightarrow> world \<Rightarrow> routine \<Rightarrow> world" where
  "repair_routine pid w routine =
     (let steps = remaining_steps pid routine
      in if length steps = 0
         then w\<lparr>routines := filter (\<lambda>r. r_id r \<noteq> r_id routine) (routines w),
                oplog := oplog w @ [RoutineDeleted (r_id routine)]\<rparr>
         else w\<lparr>routines := map (\<lambda>r. if r_id r = r_id routine
                                       then r\<lparr>r_steps := renumber steps\<rparr> else r) (routines w),
                oplog := oplog w @ [RoutineSaved (r_id routine)]\<rparr>)"

definition deleteProduct :: "platform \<Rightarrow> oid \<Rightarrow> oid \<Rightarrow> world \<Rightarrow> (string + response) \<times> world" where
  "deleteProduct pf userId pid w =
     (case findById_product pid w of
        None \<Rightarrow> (Inr \<lparr>status = 404, autoRegenerate = None, routinesAffected = None\<rparr>, w)
      | Some product \<Rightarrow>
          if p_user product \<noteq> userId
          then (Inr \<lparr>status = 403, autoRegenerate = None, routinesAffected = None\<rparr>, w)
          else
            (let affected = routinesWithProduct userId pid w;
                 w1 = foldl (repair_routine pid) w affected;
                 w2 = w1\<lparr>products := filter (\<lambda>p. p_id p \<noteq> pid) (products w1),
                         oplog := oplog w1 @ [ProductDeleted pid]\<rparr>
             in (Inr \<lparr>status = 200, autoRegenerate = Some (JBool True),
                      routinesAffected = Some (length affected)\<rparr>,
                 schedule_regeneration userId w2)))"


section \<open>A sample catalog\<close>

text \<open>Concrete products, used where a statement is evaluated on an input.\<close>

definition cerave :: product where
  "cerave = \<lparr>p_id = 10, p_user = 1, p_name = ''CeraVe Foaming Cleanser'', p_brand = ''CeraVe'',
             p_type = ''cleanser'', p_usage = ''both'', p_isActive = True\<rparr>"

definition niacinamide :: product where
  "niacinamide = \<lparr>p_id = 11, p_user = 1, p_name = ''The Ordinary Niacinamide'',
                  p_brand = ''The Ordinary'', p_type = ''serum'', p_usage = ''both'',
                  p_isActive = True\<rparr>"

definition foaming :: product where
  "foaming = \<lparr>p_id = 12, p_user = 1, p_name = ''Foaming Cleanser'', p_brand = ''Acme'',
              p_type = ''cleanser'', p_usage = ''both'', p_isActive = True\<rparr>"

definition cleanser :: product where
  "cleanser = \<lparr>p_id = 13, p_user = 1, p_name = ''Cleanser'', p_brand = ''Acme'',
               p_type = ''cleanser'', p_usage = ''both'', p_isActive = True\<rparr>"

definition hydro :: product where
  "hydro = \<lparr>p_id = 14, p_user = 1, p_name = ''Hydro Boost'', p_brand = ''Neutrogena'',
            p_type = ''moisturizer'', p_usage = ''both'', p_isActive = True\<rparr>"

text \<open>A strict casting of a request body onto a product: a string or boolean of the
  schema's type is taken, an absent field keeps the current value, anything else is
  rejected.\<close>

definition string_field :: "jsv \<Rightarrow> string \<Rightarrow> string \<Rightarrow> string + string" where
  "string_field body k current =
     (case own_prop body k of
        JUndefined \<Rightarrow> Inr current
      | JStr s \<Rightarrow> Inr s
      | _ \<Rightarrow> Inl (''Cast to String failed for path '' @ k))"

definition bool_field :: "jsv \<Rightarrow> string \<Rightarrow> bool \<Rightarrow> string + bool" where
  "bool_field body k current =
     (case own_prop body k of
        JUndefined \<Rightarrow> Inr current
      | JBool b \<Rightarrow> Inr b
      | _ \<Rightarrow> Inl (''Cast to Boolean failed for path '' @ k))"

definition strict_update :: "jsv \<Rightarrow> product \<Rightarrow> string + product" where
  "strict_update body p =
     (case string_field body ''name'' (p_name p) of Inl m \<Rightarrow> Inl m | Inr n \<Rightarrow>
      case string_field body ''brand'' (p_brand p) of Inl m \<Rightarrow> Inl m | Inr b \<Rightarrow>
      case string_field body ''type'' (p_type p) of Inl m \<Rightarrow> Inl m | Inr t \<Rightarrow>
      case string_field body ''usage'' (p_usage p) of Inl m \<Rightarrow> Inl m | Inr u \<Rightarrow>
      case bool_field body ''isActive'' (p_isActive p) of Inl m \<Rightarrow> Inl m | Inr a \<Rightarrow>
        Inr (p\<lparr>p_name := n, p_brand := b, p_type := t, p_usage := u, p_isActive := a\<rparr>))"

definition strict_create :: "jsv \<Rightarrow> string + product" where
  "strict_create body =
     strict_update body
       \<lparr>p_id = 0, p_user = 0, p_name = [], p_brand = [], p_type = ''other'', p_usage = [],
        p_isActive = True\<rparr>"

text \<open>A platform for evaluation: the completion call answers by routine type alone, the
  reference decoder decodes, every routine document is accepted.\<close>

definition mock_platform :: "(string \<Rightarrow> string + string) \<Rightarrow> platform" where
  "mock_platform answer =
     \<lparr>getGeminiResponse = (\<lambda>rq. answer (rq_type rq)), json_parse = JSON_parse,
      routine_valid = (\<lambda>d. True), create_product = strict_create,
      update_product = strict_update\<rparr>"

definition sample_user :: user where
  "sample_user = \<lparr>u_id = 1, skinType = JStr ''oily'', skinConcerns = JArr [JStr ''acne'']\<rparr>"

definition world_of :: "product list \<Rightarrow> routine list \<Rightarrow> world" where
  "world_of ps rs =
     \<lparr>products = ps, routines = rs, users = [sample_user], next_oid = 100, oplog = [],
      ai_calls = [], console = [], pending = []\<rparr>"

text \<open>Three drafts: one whose steps all name catalog products, one whose second step
  names none, and one with a zero duration and no tips.\<close>

definition draft_full :: string where
  \<open>draft_full = ''{"steps": [{"stepNumber": 1, "productName": "CeraVe Foaming Cleanser", "waitTime": 0}, {"stepNumber": 2, "productName": "niacinamide", "waitTime": 1}, {"stepNumber": 3, "productName": "Hydro Boost"}]}''\<close>

definition draft_gap :: string where
  \<open>draft_gap = ''{"steps": [{"stepNumber": 1, "productName": "Hydro Boost"}, {"stepNumber": 2, "productName": "Retinol"}, {"stepNumber": 3, "productName": "niacinamide"}]}''\<close>

definition draft_zero :: string where
  \<open>draft_zero = ''{"steps": [{"stepNumber": 1, "productName": "Hydro Boost", "instruction": "Moisturize", "waitTime": 0}], "estimatedDuration": 0}''\<close>

text \<open>Two update bodies: one touching the name alone, one resubmitting the active flag.\<close>

definition name_only :: jsv where
  "name_only = JObj [(''name'', JStr ''CeraVe Cleanser'')]"

definition active_only :: jsv where
  "active_only = JObj [(''isActive'', JBool True)]"

text \<open>Stored routines: one step on the cleanser; three steps, the first on the cleanser;
  none on the cleanser; and another user's routine.\<close>

definition step_on :: "nat \<Rightarrow> oid \<Rightarrow> step" where
  "step_on n pid =
     \<lparr>stepNumber = JNum (of_nat n), productRef = pid, instruction = JStr ''Apply'',
      waitTime = JNum 0\<rparr>"

definition routine_of :: "oid \<Rightarrow> oid \<Rightarrow> string \<Rightarrow> bool \<Rightarrow> step list \<Rightarrow> routine" where
  "routine_of rid uid t ai steps =
     \<lparr>r_user = uid, r_name = ''Routine'', r_type = t, r_steps = steps, r_isAIGenerated = ai,
      r_compatibilityWarnings = JArr [], r_id = rid\<rparr>"

definition stored_routines :: "routine list" where
  "stored_routines =
     [routine_of 200 1 ''morning'' True [step_on 1 10],
      routine_of 201 1 ''night'' False [step_on 1 10, step_on 2 11, step_on 3 14],
      routine_of 202 1 ''night'' False [step_on 1 11],
      routine_of 203 2 ''morning'' True [step_on 1 10]]"

text \<open>What the parser makes of the first two drafts, and the steps bound from them
  against the catalog of the cleanser, the niacinamide and the moisturizer.\<close>

definition parsed_full :: jsv where
  "parsed_full =
     JObj [(''steps'',
            JArr [JObj [(''stepNumber'', JNum 1),
                        (''productName'', JStr ''CeraVe Foaming Cleanser''),
                        (''waitTime'', JNum 0)],
                  JObj [(''stepNumber'', JNum 2), (''productName'', JStr ''niacinamide''),
                        (''waitTime'', JNum 1)],
                  JObj [(''stepNumber'', JNum 3), (''productName'', JStr ''Hydro Boost'')]]),
           (''compatibilityWarnings'', JArr []), (''estimatedDuration'', JNum 19),
           (''tips'', JArr [])]"

definition parsed_gap :: jsv where
  "parsed_gap =
     JObj [(''steps'',
            JArr [JObj [(''stepNumber'', JNum 1), (''productName'', JStr ''Hydro Boost'')],
                  JObj [(''stepNumber'', JNum 2), (''productName'', JStr ''Retinol'')],
                  JObj [(''stepNumber'', JNum 3), (''productName'', JStr ''niacinamide'')]]),
           (''compatibilityWarnings'', JArr []), (''estimatedDuration'', JNum 19),
           (''tips'', JArr [])]"

definition bound_full :: "step list" where
  "bound_full =
     [\<lparr>stepNumber = JNum 1, productRef = 10, instruction = JUndefined, waitTime = JNum 0\<rparr>,
      \<lparr>stepNumber = JNum 2, productRef = 11, instruction = JUndefined, waitTime = JNum 1\<rparr>,
      \<lparr>stepNumber = JNum 3, productRef = 14, instruction = JUndefined, waitTime = JNum 0\<rparr>]"

definition bound_gap :: "step list" where
  "bound_gap =
     [\<lparr>stepNumber = JNum 1, productRef = 14, instruction = JUndefined, waitTime = JNum 0\<rparr>,
      \<lparr>stepNumber = JNum 3, productRef = 11, instruction = JUndefined, waitTime = JNum 0\<rparr>]"

text \<open>A completion call that fails for one routine type and answers the full draft for
  the other.\<close>

definition fails_for :: "string \<Rightarrow> string \<Rightarrow> string + string" where
  "fails_for bad t =
     (if t = bad then Inl ''Rate limit exceeded. Please try again later.''
      else Inr draft_full)"

text \<open>What decoding makes of the third draft.\<close>

definition parsed_zero :: jsv where
  "parsed_zero =
     JObj [(''steps'',
            JArr [JObj [(''stepNumber'', JNum 1), (''productName'', JStr ''Hydro Boost''),
                        (''instruction'', JStr ''Moisturize''), (''waitTime'', JNum 0)]]),
           (''estimatedDuration'', JNum 0)]"

section \<open>The response parser\<close>


lemma trim_end_keeps: "s \<noteq> [] \<Longrightarrow> \<not> is_space (last s) \<Longrightarrow> trim_end s = s"
  by (cases s rule: rev_cases) (simp_all add: trim_end_def)

lemma trim_keeps:
  "s \<noteq> [] \<Longrightarrow> \<not> is_space (hd s) \<Longrightarrow> \<not> is_space (last s) \<Longrightarrow> trim s = s"
  by (cases s) (simp_all add: trim_def trim_end_keeps)








lemma own_prop_set_prop:
  "own_prop (set_prop (JObj kvs) k d) k' = (if k' = k then d else own_prop (JObj kvs) k')"
  by (simp add: update_conv')

lemma backfill_obj: "\<exists>kvs'. backfill k d (JObj kvs) = JObj kvs'"
  by (simp add: backfill_def)

lemma own_prop_backfill:
  "own_prop (backfill k d (JObj kvs)) k' =
     (if k' = k \<and> \<not> truthy (own_prop (JObj kvs) k) then d else own_prop (JObj kvs) k')"
  by (auto simp: backfill_def update_conv')

lemma validate_response_Inr:
  assumes "validate_response parsed = Inr draft"
  shows "\<exists>kvs xs. parsed = JObj kvs \<and> map_of kvs ''steps'' = Some (JArr xs)
           \<and> draft = backfill ''tips'' (JArr [])
                       (backfill ''estimatedDuration'' (JNum 19)
                         (backfill ''compatibilityWarnings'' (JArr []) parsed))"
proof -
  from assms have st: "truthy (own_prop parsed ''steps'')" "isArray (own_prop parsed ''steps'')"
    and d: "draft = backfill ''tips'' (JArr [])
                       (backfill ''estimatedDuration'' (JNum 19)
                         (backfill ''compatibilityWarnings'' (JArr []) parsed))"
    by (auto simp: validate_response_def get_prop_def split: if_splits)
  from st(2) obtain xs where xs: "own_prop parsed ''steps'' = JArr xs"
    by (cases "own_prop parsed ''steps''") simp_all
  then obtain kvs where "parsed = JObj kvs" by (cases parsed) simp_all
  with xs d show ?thesis by (auto split: option.splits)
qed

lemma validate_response_prop:
  assumes "validate_response parsed = Inr draft"
  shows "own_prop draft k =
           (if k = ''tips'' \<and> \<not> truthy (own_prop parsed k) then JArr []
            else if k = ''estimatedDuration'' \<and> \<not> truthy (own_prop parsed k) then JNum 19
            else if k = ''compatibilityWarnings'' \<and> \<not> truthy (own_prop parsed k) then JArr []
            else own_prop parsed k)"
proof -
  from validate_response_Inr [OF assms] obtain kvs where p: "parsed = JObj kvs"
    and d: "draft = backfill ''tips'' (JArr [])
                       (backfill ''estimatedDuration'' (JNum 19)
                         (backfill ''compatibilityWarnings'' (JArr []) parsed))"
    by blast
  obtain k1 where k1: "backfill ''compatibilityWarnings'' (JArr []) (JObj kvs) = JObj k1"
    using backfill_obj by blast
  obtain k2 where k2: "backfill ''estimatedDuration'' (JNum 19) (JObj k1) = JObj k2"
    using backfill_obj by blast
  have 1: "own_prop (JObj k1) k' = (if k' = ''compatibilityWarnings'' \<and> \<not> truthy (own_prop (JObj kvs) ''compatibilityWarnings'') then JArr [] else own_prop (JObj kvs) k')" for k'
    using own_prop_backfill [of "''compatibilityWarnings''" "JArr []" kvs k'] k1 by simp
  have 2: "own_prop (JObj k2) k' = (if k' = ''estimatedDuration'' \<and> \<not> truthy (own_prop (JObj k1) ''estimatedDuration'') then JNum 19 else own_prop (JObj k1) k')" for k'
    using own_prop_backfill [of "''estimatedDuration''" "JNum 19" k1 k'] k2 by simp
  have 3: "own_prop draft k' = (if k' = ''tips'' \<and> \<not> truthy (own_prop (JObj k2) ''tips'') then JArr [] else own_prop (JObj k2) k')" for k'
    using own_prop_backfill [of "''tips''" "JArr []" k2 k'] d p k1 k2 by simp
  show ?thesis
    unfolding 3 2 1 p by auto
qed


text \<open>
  Claim C10. The backfill tests for a falsy value, not for absence: a decoded response
  whose \<^verbatim>\<open>estimatedDuration\<close> is 0 leaves the parser with 19 there, and a step bound
  from a draft step whose \<^verbatim>\<open>waitTime\<close> is missing, null or 0 has \<^verbatim>\<open>waitTime\<close> 0.
\<close>

theorem backfill_tests_falsiness:
  "(extract_and_decode parse (clean_response aiResponse) = Inr parsed
      \<and> own_prop parsed ''estimatedDuration'' = JNum 0
      \<and> parse_ai_response parse aiResponse = Inr draft
      \<longrightarrow> own_prop draft ''estimatedDuration'' = JNum 19)
   \<and> (bind_step ps aiStep = Inr (Some s)
      \<and> own_prop aiStep ''waitTime'' \<in> {JUndefined, JNull, JNum 0}
      \<longrightarrow> waitTime s = JNum 0)"
proof (intro conjI impI)
  assume a: "extract_and_decode parse (clean_response aiResponse) = Inr parsed
      \<and> own_prop parsed ''estimatedDuration'' = JNum 0
      \<and> parse_ai_response parse aiResponse = Inr draft"
  then have "validate_response parsed = Inr draft"
    by (clarsimp simp: parse_ai_response_def)
  from validate_response_prop [OF this, of "''estimatedDuration''"] a
  show "own_prop draft ''estimatedDuration'' = JNum 19" by simp
next
  assume b: "bind_step ps aiStep = Inr (Some s)
      \<and> own_prop aiStep ''waitTime'' \<in> {JUndefined, JNull, JNum 0}"
  then have "\<not> truthy (own_prop aiStep ''waitTime'')" by auto
  with b show "waitTime s = JNum 0"
    by (auto simp: bind_step_def split: sum.splits option.splits)
qed

theorem backfill_tests_falsiness_witness:
  "own_prop (JObj [(''steps'', JArr [JObj [(''stepNumber'', JNum 1), (''productName'', JStr ''Hydro Boost''),
             (''instruction'', JStr ''Moisturize''), (''waitTime'', JNum 0)]]),
        (''estimatedDuration'', JNum 0)]) ''estimatedDuration'' = JNum 0
   \<and> own_prop (JObj [(''steps'', JArr [JObj [(''stepNumber'', JNum 1), (''productName'', JStr ''Hydro Boost''),
             (''instruction'', JStr ''Moisturize''), (''waitTime'', JNum 0)]]),
        (''estimatedDuration'', JNum 19), (''compatibilityWarnings'', JArr []), (''tips'', JArr [])])
        ''estimatedDuration'' = JNum 19
   \<and> bind_step [cerave, niacinamide, hydro]
        (JObj [(''stepNumber'', JNum 1), (''productName'', JStr ''Hydro Boost''),
               (''instruction'', JStr ''Moisturize''), (''waitTime'', JNum 0)])
      = Inr (Some \<lparr>stepNumber = JNum 1, productRef = 14, instruction = JStr ''Moisturize'',
                   waitTime = JNum 0\<rparr>)
   \<and> waitTime \<lparr>stepNumber = JNum 1, productRef = 14, instruction = JStr ''Moisturize'',
                   waitTime = JNum 0\<rparr> = JNum 0"
proof -
  let ?parsed = "JObj [(''steps'', JArr [JObj [(''stepNumber'', JNum 1), (''productName'', JStr ''Hydro Boost''),
             (''instruction'', JStr ''Moisturize''), (''waitTime'', JNum 0)]]),
        (''estimatedDuration'', JNum 0)]"
  let ?draft = "JObj [(''steps'', JArr [JObj [(''stepNumber'', JNum 1), (''productName'', JStr ''Hydro Boost''),
             (''instruction'', JStr ''Moisturize''), (''waitTime'', JNum 0)]]),
        (''estimatedDuration'', JNum 19), (''compatibilityWarnings'', JArr []), (''tips'', JArr [])]"
  let ?aiStep = "JObj [(''stepNumber'', JNum 1), (''productName'', JStr ''Hydro Boost''),
               (''instruction'', JStr ''Moisturize''), (''waitTime'', JNum 0)]"
  let ?s = "\<lparr>stepNumber = JNum 1, productRef = 14, instruction = JStr ''Moisturize'',
                   waitTime = JNum 0\<rparr>"
  have 1: "extract_and_decode JSON_parse (clean_response (fence ''json'' [CHR 0x0A] [CHR 0x0A] draft_zero)) = Inr ?parsed"
    by code_simp
  have 2: "own_prop ?parsed ''estimatedDuration'' = JNum 0" by simp
  have 3: "parse_ai_response JSON_parse (fence ''json'' [CHR 0x0A] [CHR 0x0A] draft_zero) = Inr ?draft"
    by code_simp
  have 4: "bind_step [cerave, niacinamide, hydro] ?aiStep = Inr (Some ?s)"
    by code_simp
  have 5: "own_prop ?aiStep ''waitTime'' \<in> {JUndefined, JNull, JNum 0}" by simp
  from backfill_tests_falsiness [of JSON_parse "fence ''json'' [CHR 0x0A] [CHR 0x0A] draft_zero" ?parsed ?draft
         "[cerave, niacinamide, hydro]" ?aiStep ?s] 1 2 3 4 5
  show ?thesis by simp
qed


subsection \<open>What a decoded text looks like\<close>

lemma skip_ws_split: "s = takeWhile json_ws s @ skip_ws s"
  by (simp add: skip_ws_def)

lemma parse_chars_consumes:
  "parse_chars s = Some (str, r) \<Longrightarrow> \<exists>tok. s = tok @ r \<and> tok \<noteq> [] \<and> last tok = CHR 0x22"
proof (induction s arbitrary: str r rule: parse_chars.induct)
  case 1
  then show ?case by simp
next
  case (2 c cs)
  show ?case
  proof (cases "c = CHR 0x22")
    case True
    then have "cs = r" using "2.prems" by simp
    then show ?thesis using True by (intro exI [of _ "[c]"]) simp
  next
    case q: False
    show ?thesis
    proof (cases "c = CHR 0x5C")
      case True
      then obtain e cs' where cs: "cs = e # cs'"
        using "2.prems" q by (cases cs) auto
      show ?thesis
      proof (cases "e = CHR ''u''")
        case u: True
        then obtain h1 h2 h3 h4 r0 where cs': "cs' = h1 # h2 # h3 # h4 # r0"
          using "2.prems" q True cs
          by (auto split: list.splits)
        then obtain uc where uc: "unicode_escape [h1, h2, h3, h4] = Some uc"
          using "2.prems" q True cs u by (auto split: option.splits)
        then obtain str' where "parse_chars r0 = Some (str', r)"
          using "2.prems" q True cs u cs' by auto
        from "2.IH"(1) [OF q True cs u cs' refl refl refl uc this]
        obtain tok where "r0 = tok @ r" "tok \<noteq> []" "last tok = CHR 0x22" by blast
        then show ?thesis
          using cs cs' by (intro exI [of _ "c # e # h1 # h2 # h3 # h4 # tok"]) simp
      next
        case nu: False
        then obtain uc where uc: "unescape e = Some uc"
          using "2.prems" q True cs by (auto split: option.splits)
        then obtain str' where "parse_chars cs' = Some (str', r)"
          using "2.prems" q True cs nu by auto
        from "2.IH"(2) [OF q True cs nu uc this]
        obtain tok where "cs' = tok @ r" "tok \<noteq> []" "last tok = CHR 0x22" by blast
        then show ?thesis
          using cs by (intro exI [of _ "c # e # tok"]) simp
      qed
    next
      case False
      then have ctl: "\<not> (of_char c :: nat) < 32" using "2.prems" q by (auto split: if_splits)
      then obtain str' where "parse_chars cs = Some (str', r)"
        using "2.prems" q False by auto
      from "2.IH"(3) [OF q False ctl this]
      obtain tok where "cs = tok @ r" "tok \<noteq> []" "last tok = CHR 0x22" by blast
      then show ?thesis by (intro exI [of _ "c # tok"]) simp
    qed
  qed
qed

lemma takeWhile_last: "takeWhile P xs \<noteq> [] \<Longrightarrow> P (last (takeWhile P xs))"
  by (metis last_in_set set_takeWhileD)

lemma takeWhile_hd: "takeWhile P xs \<noteq> [] \<Longrightarrow> P (hd (takeWhile P xs))"
  by (metis hd_in_set set_takeWhileD)

lemma parse_int_part_consumes:
  assumes "parse_int_part s = Some (ip, r)"
  shows "s = ip @ r \<and> ip \<noteq> [] \<and> is_digit (hd ip) \<and> is_digit (last ip)"
proof -
  from assms have ip: "ip = takeWhile is_digit s" "r = dropWhile is_digit s" "ip \<noteq> []"
    by (auto simp: parse_int_part_def Let_def split: if_splits)
  then show ?thesis
    using takeWhile_hd [of is_digit s] takeWhile_last [of is_digit s] by simp
qed

lemma parse_frac_part_consumes:
  assumes a: "parse_frac_part s = Some (fp, r)"
  shows "\<exists>tok. s = tok @ r \<and> (tok = [] \<or> is_digit (last tok))"
proof (cases s)
  case Nil
  then have "r = s" using a by (simp add: parse_frac_part_def)
  then show ?thesis by (intro exI [of _ "[]"]) simp
next
  case (Cons c cs)
  show ?thesis
  proof (cases "c = CHR ''.''")
    case True
    have ne: "takeWhile is_digit cs \<noteq> []" and r: "r = dropWhile is_digit cs"
      using a Cons True by (auto simp: parse_frac_part_def split: if_splits)
    have "s = (c # takeWhile is_digit cs) @ r" using Cons r by simp
    moreover have "is_digit (last (c # takeWhile is_digit cs))"
      using ne takeWhile_last [of is_digit cs] by simp
    ultimately show ?thesis by blast
  next
    case False
    have "r = s" using a Cons False by (simp add: parse_frac_part_def)
    then show ?thesis by (intro exI [of _ "[]"]) simp
  qed
qed

lemma parse_exp_part_consumes:
  assumes a: "parse_exp_part s = Some (e, r)"
  shows "\<exists>tok. s = tok @ r \<and> (tok = [] \<or> is_digit (last tok))"
proof (cases s)
  case Nil
  then have "r = s" using a by (simp add: parse_exp_part_def)
  then show ?thesis by (intro exI [of _ "[]"]) simp
next
  case (Cons c cs)
  show ?thesis
  proof (cases "c = CHR ''e'' \<or> c = CHR ''E''")
    case True
    define cs' where
      "cs' = (case cs of [] \<Rightarrow> [] | x # xs \<Rightarrow> if x = CHR ''-'' \<or> x = CHR ''+'' then xs else cs)"
    have ne: "takeWhile is_digit cs' \<noteq> []" and r: "r = dropWhile is_digit cs'"
      using a Cons True unfolding cs'_def
      by (auto simp: parse_exp_part_def Let_def split: if_splits)
    have "\<exists>sg. cs = sg @ cs'"
    proof (cases cs)
      case Nil
      then show ?thesis unfolding cs'_def by simp
    next
      case (Cons x xs)
      show ?thesis
      proof (cases "x = CHR ''-'' \<or> x = CHR ''+''")
        case True
        then show ?thesis unfolding cs'_def Cons by (intro exI [of _ "[x]"]) simp
      next
        case False
        then show ?thesis unfolding cs'_def Cons by (intro exI [of _ "[]"]) simp
      qed
    qed
    then obtain sg where sg: "cs = sg @ cs'" by blast
    have "s = (c # sg @ takeWhile is_digit cs') @ r"
      unfolding Cons sg r by simp
    moreover have "is_digit (last (c # sg @ takeWhile is_digit cs'))"
      using ne takeWhile_last [of is_digit cs'] by simp
    ultimately show ?thesis by blast
  next
    case False
    have "r = s" using a Cons False by (auto simp: parse_exp_part_def)
    then show ?thesis by (intro exI [of _ "[]"]) simp
  qed
qed

lemma parse_number_consumes:
  assumes "parse_number s = Some (n, r)"
  shows "\<exists>tok. s = tok @ r \<and> tok \<noteq> [] \<and> (hd tok = CHR ''-'' \<or> is_digit (hd tok))
               \<and> is_digit (last tok)"
proof -
  define s1 where
    "s1 = (if (case s of [] \<Rightarrow> False | c # _ \<Rightarrow> c = CHR ''-'') then tl s else s)"
  obtain ip s2 where ip: "parse_int_part s1 = Some (ip, s2)"
    using assms unfolding s1_def
    by (auto simp: parse_number_def Let_def split: option.splits)
  obtain fp s3 where fp: "parse_frac_part s2 = Some (fp, s3)"
    using assms ip unfolding s1_def
    by (auto simp: parse_number_def Let_def split: option.splits)
  obtain e s4 where ep: "parse_exp_part s3 = Some (e, s4)"
    using assms ip fp unfolding s1_def
    by (auto simp: parse_number_def Let_def split: option.splits)
  have r: "s4 = r"
    using assms ip fp ep unfolding s1_def
    by (auto simp: parse_number_def Let_def split: option.splits)
  from parse_int_part_consumes [OF ip]
  have 1: "s1 = ip @ s2" "ip \<noteq> []" "is_digit (hd ip)" "is_digit (last ip)" by simp_all
  from parse_frac_part_consumes [OF fp]
  obtain t1 where 2: "s2 = t1 @ s3" "t1 = [] \<or> is_digit (last t1)" by blast
  from parse_exp_part_consumes [OF ep]
  obtain t2 where 3: "s3 = t2 @ s4" "t2 = [] \<or> is_digit (last t2)" by blast
  have "\<exists>sg. s = sg @ s1 \<and> (sg = [] \<or> sg = [CHR ''-''])"
  proof (cases s)
    case Nil
    then show ?thesis unfolding s1_def by simp
  next
    case (Cons c cs)
    show ?thesis
    proof (cases "c = CHR ''-''")
      case True
      then show ?thesis unfolding s1_def Cons by (intro exI [of _ "[CHR ''-'']"]) simp
    next
      case False
      then show ?thesis unfolding s1_def Cons by (intro exI [of _ "[]"]) simp
    qed
  qed
  then obtain sg where sg: "s = sg @ s1" "sg = [] \<or> sg = [CHR ''-'']" by blast
  let ?tok = "sg @ ip @ t1 @ t2"
  have "s = ?tok @ r" unfolding sg(1) 1(1) 2(1) 3(1) r by simp
  moreover have "?tok \<noteq> []" using 1(2) by simp
  moreover have "hd ?tok = CHR ''-'' \<or> is_digit (hd ?tok)"
    using sg(2) 1(2,3) by auto
  moreover have "is_digit (last ?tok)"
    using 1(2,4) 2(2) 3(2) by (cases "t2 = []"; cases "t1 = []") simp_all
  ultimately show ?thesis by blast
qed

lemma parse_literal_consumes:
  assumes "parse_literal s = Some (v, r)"
  shows "\<exists>tok. s = tok @ r \<and> tok \<noteq> [] \<and> value_start (hd tok) \<and> value_end (last tok)"
proof -
  consider (t) "startsWith s ''true''" "r = drop 4 s"
    | (f) "startsWith s ''false''" "r = drop 5 s"
    | (n) "startsWith s ''null''" "r = drop 4 s"
    | (num) x where "parse_number s = Some (x, r)"
    using assms by (auto simp: parse_literal_def split: if_splits)
  then show ?thesis
  proof cases
    case t
    then have "take 4 s = ''true''" by (simp add: startsWith_def eval_nat_numeral)
    then have "s = ''true'' @ r" using t(2) by (metis append_take_drop_id)
    then show ?thesis by (intro exI [of _ "''true''"]) (simp add: value_start_def value_end_def)
  next
    case f
    then have "take 5 s = ''false''" by (simp add: startsWith_def eval_nat_numeral)
    then have "s = ''false'' @ r" using f(2) by (metis append_take_drop_id)
    then show ?thesis by (intro exI [of _ "''false''"]) (simp add: value_start_def value_end_def)
  next
    case n
    then have "take 4 s = ''null''" by (simp add: startsWith_def eval_nat_numeral)
    then have "s = ''null'' @ r" using n(2) by (metis append_take_drop_id)
    then show ?thesis by (intro exI [of _ "''null''"]) (simp add: value_start_def value_end_def)
  next
    case num
    from parse_number_consumes [OF this]
    obtain tok where tok: "s = tok @ r" "tok \<noteq> []"
      "hd tok = CHR ''-'' \<or> is_digit (hd tok)" "is_digit (last tok)"
      by blast
    have "value_start (hd tok)" using tok(3) unfolding value_start_def by blast
    moreover have "value_end (last tok)" using tok(4) unfolding value_end_def by blast
    ultimately show ?thesis using tok(1,2) by blast
  qed
qed

lemma parse_value_Suc_consumes:
  assumes v: "parse_value (Suc n) s = Some (v, r)"
    and el: "\<And>s vs r. parse_elements n s = Some (vs, r) \<Longrightarrow>
               \<exists>tok. s = tok @ r \<and> tok \<noteq> [] \<and> last tok = CHR '']''"
    and mem: "\<And>s kvs r. parse_members n s = Some (kvs, r) \<Longrightarrow>
               \<exists>tok. s = tok @ r \<and> tok \<noteq> [] \<and> last tok = CHR ''}''"
  shows "\<exists>tok. skip_ws s = tok @ r \<and> tok \<noteq> [] \<and> value_start (hd tok) \<and> value_end (last tok)"
proof -
  obtain c cs where sk: "skip_ws s = c # cs"
    using v by (cases "skip_ws s") auto
  consider (str) "c = CHR 0x22"
    | (arr) "c \<noteq> CHR 0x22" "c = CHR ''[''"
    | (obj) "c \<noteq> CHR 0x22" "c \<noteq> CHR ''[''" "c = CHR ''{''"
    | (lit) "c \<noteq> CHR 0x22" "c \<noteq> CHR ''[''" "c \<noteq> CHR ''{''"
    by blast
  then show ?thesis
  proof cases
    case str
    then obtain x where "parse_chars cs = Some (x, r)"
      using v sk by auto
    from parse_chars_consumes [OF this]
    obtain tok where tok: "cs = tok @ r" "tok \<noteq> []" "last tok = CHR 0x22" by blast
    show ?thesis
      unfolding sk using tok str
      by (intro exI [of _ "c # tok"]) (simp add: value_start_def value_end_def)
  next
    case arr
    obtain d r0 where d: "skip_ws cs = d # r0"
      using v sk arr by (cases "skip_ws cs") auto
    show ?thesis
    proof (cases "d = CHR '']''")
      case True
      then have r: "r = r0" using v sk arr d by simp
      have "cs = (takeWhile json_ws cs @ [d]) @ r"
        using skip_ws_split [of cs] d r by simp
      then show ?thesis
        unfolding sk using arr True
        by (intro exI [of _ "c # takeWhile json_ws cs @ [d]"])
           (simp add: value_start_def value_end_def)
    next
      case False
      then obtain vs where "parse_elements n cs = Some (vs, r)"
        using v sk arr d by auto
      from el [OF this] obtain tok where tok: "cs = tok @ r" "tok \<noteq> []" "last tok = CHR '']''"
        by blast
      show ?thesis
        unfolding sk using tok arr
        by (intro exI [of _ "c # tok"]) (simp add: value_start_def value_end_def)
    qed
  next
    case obj
    obtain d r0 where d: "skip_ws cs = d # r0"
      using v sk obj by (cases "skip_ws cs") auto
    show ?thesis
    proof (cases "d = CHR ''}''")
      case True
      then have r: "r = r0" using v sk obj d by simp
      have "cs = (takeWhile json_ws cs @ [d]) @ r"
        using skip_ws_split [of cs] d r by simp
      then show ?thesis
        unfolding sk using obj True
        by (intro exI [of _ "c # takeWhile json_ws cs @ [d]"])
           (simp add: value_start_def value_end_def)
    next
      case False
      then obtain kvs where "parse_members n cs = Some (kvs, r)"
        using v sk obj d by auto
      from mem [OF this] obtain tok where tok: "cs = tok @ r" "tok \<noteq> []" "last tok = CHR ''}''"
        by blast
      show ?thesis
        unfolding sk using tok obj
        by (intro exI [of _ "c # tok"]) (simp add: value_start_def value_end_def)
    qed
  next
    case lit
    then have "parse_literal (c # cs) = Some (v, r)"
      using v sk by simp
    from parse_literal_consumes [OF this] show ?thesis unfolding sk .
  qed
qed

lemma parse_elements_Suc_consumes:
  assumes e: "parse_elements (Suc n) s = Some (vs, r)"
    and va: "\<And>s v r. parse_value n s = Some (v, r) \<Longrightarrow>
               \<exists>tok. skip_ws s = tok @ r \<and> tok \<noteq> []"
    and el: "\<And>s vs r. parse_elements n s = Some (vs, r) \<Longrightarrow>
               \<exists>tok. s = tok @ r \<and> tok \<noteq> [] \<and> last tok = CHR '']''"
  shows "\<exists>tok. s = tok @ r \<and> tok \<noteq> [] \<and> last tok = CHR '']''"
proof -
  obtain v r1 where v: "parse_value n s = Some (v, r1)"
    using e by (auto split: option.splits)
  from va [OF v] obtain t1 where t1: "skip_ws s = t1 @ r1" by blast
  obtain c r2 where c: "skip_ws r1 = c # r2"
    using e v by (cases "skip_ws r1") auto
  have s: "s = takeWhile json_ws s @ t1 @ takeWhile json_ws r1 @ c # r2"
    using skip_ws_split [of s] skip_ws_split [of r1] t1 c by simp
  show ?thesis
  proof (cases "c = CHR '',''")
    case True
    then obtain vs' where "parse_elements n r2 = Some (vs', r)"
      using e v c by auto
    from el [OF this] obtain tok where tok: "r2 = tok @ r" "tok \<noteq> []" "last tok = CHR '']''"
      by blast
    have "s = (takeWhile json_ws s @ t1 @ takeWhile json_ws r1 @ c # tok) @ r"
      using s tok(1) by simp
    then show ?thesis
      using tok(2,3)
      by (intro exI [of _ "takeWhile json_ws s @ t1 @ takeWhile json_ws r1 @ c # tok"]) simp
  next
    case False
    then have cl: "c = CHR '']''" and r: "r = r2"
      using e v c by (auto split: if_splits)
    have "s = (takeWhile json_ws s @ t1 @ takeWhile json_ws r1 @ [c]) @ r"
      using s r by simp
    then show ?thesis
      using cl
      by (intro exI [of _ "takeWhile json_ws s @ t1 @ takeWhile json_ws r1 @ [c]"]) simp
  qed
qed

lemma parse_members_Suc_consumes:
  assumes m: "parse_members (Suc n) s = Some (kvs, r)"
    and va: "\<And>s v r. parse_value n s = Some (v, r) \<Longrightarrow>
               \<exists>tok. skip_ws s = tok @ r \<and> tok \<noteq> []"
    and mem: "\<And>s kvs r. parse_members n s = Some (kvs, r) \<Longrightarrow>
               \<exists>tok. s = tok @ r \<and> tok \<noteq> [] \<and> last tok = CHR ''}''"
  shows "\<exists>tok. s = tok @ r \<and> tok \<noteq> [] \<and> last tok = CHR ''}''"
proof -
  obtain q s1 where q: "skip_ws s = q # s1"
    using m by (cases "skip_ws s") auto
  have qq: "q = CHR 0x22" using m q by (auto split: if_splits)
  obtain k s2 where k: "parse_chars s1 = Some (k, s2)"
    using m q qq by (auto split: option.splits)
  obtain col s3 where col: "skip_ws s2 = col # s3"
    using m q qq k by (cases "skip_ws s2") auto
  have cc: "col = CHR '':''" using m q qq k col by (auto split: if_splits)
  obtain v s4 where v: "parse_value n s3 = Some (v, s4)"
    using m q qq k col cc by (auto split: option.splits)
  obtain c s5 where c: "skip_ws s4 = c # s5"
    using m q qq k col cc v by (cases "skip_ws s4") auto
  from parse_chars_consumes [OF k] obtain tk where tk: "s1 = tk @ s2" by blast
  from va [OF v] obtain tv where tv: "skip_ws s3 = tv @ s4" by blast
  let ?pre = "takeWhile json_ws s @ q # tk @ takeWhile json_ws s2 @ col
              # takeWhile json_ws s3 @ tv @ takeWhile json_ws s4"
  have s: "s = ?pre @ c # s5"
    using skip_ws_split [of s] skip_ws_split [of s2] skip_ws_split [of s3]
      skip_ws_split [of s4] q tk col tv c
    by simp
  show ?thesis
  proof (cases "c = CHR '',''")
    case True
    then obtain kvs' where "parse_members n s5 = Some (kvs', r)"
      using m q qq k col cc v c by auto
    from mem [OF this] obtain tok where tok: "s5 = tok @ r" "tok \<noteq> []" "last tok = CHR ''}''"
      by blast
    have "s = (?pre @ c # tok) @ r" using s tok(1) by simp
    then show ?thesis
      using tok(2,3) by (intro exI [of _ "?pre @ c # tok"]) simp
  next
    case False
    then have cl: "c = CHR ''}''" and r: "r = s5"
      using m q qq k col cc v c by (auto split: if_splits)
    have "s = (?pre @ [c]) @ r" using s r by simp
    then show ?thesis
      using cl by (intro exI [of _ "?pre @ [c]"]) simp
  qed
qed

lemma parse_consumes:
  "(\<forall>s v r. parse_value n s = Some (v, r) \<longrightarrow>
      (\<exists>tok. skip_ws s = tok @ r \<and> tok \<noteq> [] \<and> value_start (hd tok) \<and> value_end (last tok)))
   \<and> (\<forall>s vs r. parse_elements n s = Some (vs, r) \<longrightarrow>
      (\<exists>tok. s = tok @ r \<and> tok \<noteq> [] \<and> last tok = CHR '']''))
   \<and> (\<forall>s kvs r. parse_members n s = Some (kvs, r) \<longrightarrow>
      (\<exists>tok. s = tok @ r \<and> tok \<noteq> [] \<and> last tok = CHR ''}''))"
proof (induction n)
  case 0
  show ?case by simp
next
  case (Suc n)
  have va: "\<exists>tok. skip_ws s = tok @ r \<and> tok \<noteq> []" if "parse_value n s = Some (v, r)" for s v r
    using Suc that by blast
  have el: "\<exists>tok. s = tok @ r \<and> tok \<noteq> [] \<and> last tok = CHR '']''"
    if "parse_elements n s = Some (vs, r)" for s vs r
    using Suc that by blast
  have mem: "\<exists>tok. s = tok @ r \<and> tok \<noteq> [] \<and> last tok = CHR ''}''"
    if "parse_members n s = Some (kvs, r)" for s kvs r
    using Suc that by blast
  show ?case
  proof (intro conjI allI impI)
    fix s v r
    assume a: "parse_value (Suc n) s = Some (v, r)"
    show "\<exists>tok. skip_ws s = tok @ r \<and> tok \<noteq> [] \<and> value_start (hd tok) \<and> value_end (last tok)"
      by (rule parse_value_Suc_consumes [OF a]) (erule el mem)+
  next
    fix s vs r
    assume a: "parse_elements (Suc n) s = Some (vs, r)"
    show "\<exists>tok. s = tok @ r \<and> tok \<noteq> [] \<and> last tok = CHR '']''"
      by (rule parse_elements_Suc_consumes [OF a]) (erule va el)+
  next
    fix s kvs r
    assume a: "parse_members (Suc n) s = Some (kvs, r)"
    show "\<exists>tok. s = tok @ r \<and> tok \<noteq> [] \<and> last tok = CHR ''}''"
      by (rule parse_members_Suc_consumes [OF a]) (erule va mem)+
  qed
qed

lemma JSON_parse_shape:
  assumes "JSON_parse jt = Inr v"
  shows "\<exists>pre tok post. jt = pre @ tok @ post
           \<and> (\<forall>c\<in>set pre. json_ws c) \<and> (\<forall>c\<in>set post. json_ws c)
           \<and> tok \<noteq> [] \<and> value_start (hd tok) \<and> value_end (last tok)"
proof -
  obtain r where p: "parse_value (Suc (length jt)) jt = Some (v, r)" and r: "skip_ws r = []"
    using assms by (auto simp: JSON_parse_def split: option.splits if_splits)
  from parse_consumes [of "Suc (length jt)"] p
  obtain tok where tok: "skip_ws jt = tok @ r" "tok \<noteq> []" "value_start (hd tok)"
    "value_end (last tok)"
    by blast
  have "jt = takeWhile json_ws jt @ tok @ r"
    using skip_ws_split [of jt] tok(1) by simp
  moreover have "\<forall>c\<in>set (takeWhile json_ws jt). json_ws c"
    by (auto dest: set_takeWhileD)
  moreover have "\<forall>c\<in>set r. json_ws c"
    using r by (simp add: skip_ws_def dropWhile_eq_Nil_conv)
  ultimately show ?thesis using tok(2,3,4) by blast
qed

subsection \<open>Cleaning a fenced text\<close>

lemma json_ws_is_space: "json_ws c \<Longrightarrow> is_space c"
  by (auto simp: json_ws_def is_space_def)

lemma is_digit_plain:
  assumes "is_digit c"
  shows "\<not> is_space c" "c \<noteq> CHR 0x60" "lower_char c = c" "c \<noteq> CHR ''j''"
proof -
  have r: "48 \<le> (of_char c :: nat)" "(of_char c :: nat) \<le> 57"
    using assms by (simp_all add: is_digit_def)
  show "\<not> is_space c" using r by (auto simp: is_space_def)
  show "c \<noteq> CHR 0x60" using r by auto
  show "lower_char c = c" using r by (simp add: lower_char_def Let_def)
  show "c \<noteq> CHR ''j''" using r by auto
qed

lemma value_start_plain:
  assumes "value_start c"
  shows "\<not> is_space c" "c \<noteq> CHR 0x60" "lower_char c \<noteq> CHR ''j''"
proof -
  consider (sym) "c \<in> {CHR 0x22, CHR ''['', CHR ''{'', CHR ''t'', CHR ''f'', CHR ''n'', CHR ''-''}"
    | (dig) "is_digit c"
    using assms unfolding value_start_def by blast
  then have "\<not> is_space c \<and> c \<noteq> CHR 0x60 \<and> lower_char c \<noteq> CHR ''j''"
  proof cases
    case sym
    then show ?thesis by (auto simp: is_space_def lower_char_def)
  next
    case dig
    then show ?thesis using is_digit_plain [OF dig] by simp
  qed
  then show "\<not> is_space c" "c \<noteq> CHR 0x60" "lower_char c \<noteq> CHR ''j''" by simp_all
qed

lemma value_end_plain:
  assumes "value_end c"
  shows "\<not> is_space c" "c \<noteq> CHR 0x60"
proof -
  consider (sym) "c \<in> {CHR 0x22, CHR '']'', CHR ''}'', CHR ''e'', CHR ''l''}" | (dig) "is_digit c"
    using assms unfolding value_end_def by blast
  then have "\<not> is_space c \<and> c \<noteq> CHR 0x60"
  proof cases
    case sym
    then show ?thesis by (auto simp: is_space_def)
  next
    case dig
    then show ?thesis using is_digit_plain [OF dig] by simp
  qed
  then show "\<not> is_space c" "c \<noteq> CHR 0x60" by simp_all
qed

lemma is_space_lower: "is_space c \<Longrightarrow> lower_char c \<noteq> CHR ''j''"
  by (auto simp: is_space_def lower_char_def)

lemma dropWhile_spaces:
  assumes "\<forall>c\<in>set ws. is_space c" "tok \<noteq> []" "\<not> is_space (hd tok)"
  shows "dropWhile is_space (ws @ tok @ rest) = tok @ rest"
proof -
  have "dropWhile is_space (ws @ tok @ rest) = dropWhile is_space (tok @ rest)"
    using assms(1) by (simp add: dropWhile_append)
  also have "\<dots> = tok @ rest"
    using assms(2,3) by (cases tok) simp_all
  finally show ?thesis .
qed

lemma trim_end_spaces:
  assumes "\<forall>c\<in>set ws. is_space c" "tok \<noteq> []" "\<not> is_space (last tok)"
  shows "trim_end (tok @ ws) = tok"
proof -
  have "dropWhile is_space (rev ws @ rev tok @ []) = rev tok @ []"
    by (rule dropWhile_spaces) (use assms in \<open>simp_all add: hd_rev\<close>)
  then show ?thesis by (simp add: trim_end_def)
qed

lemma not_json_tag:
  assumes "xs \<noteq> []" "lower_char (hd xs) \<noteq> CHR ''j''"
  shows "toLowerCase (take 4 xs) \<noteq> ''json''"
  using assms by (cases xs) (auto simp: toLowerCase_def)

lemma startsWith_backticks:
  "s \<noteq> [] \<Longrightarrow> hd s \<noteq> CHR 0x60 \<Longrightarrow> \<not> startsWith s [CHR 0x60, CHR 0x60, CHR 0x60]"
  by (cases s) (auto simp: startsWith_def)

lemma endsWith_backticks:
  "s \<noteq> [] \<Longrightarrow> last s \<noteq> CHR 0x60 \<Longrightarrow> \<not> endsWith s [CHR 0x60, CHR 0x60, CHR 0x60]"
  by (cases s rule: rev_cases) (auto simp: endsWith_def)

lemma clean_plain:
  assumes "\<forall>c\<in>set pre. is_space c" "\<forall>c\<in>set post. is_space c" "tok \<noteq> []"
    "value_start (hd tok)" "value_end (last tok)"
  shows "clean_response (pre @ tok @ post) = tok"
proof -
  note s = value_start_plain [OF assms(4)] and e = value_end_plain [OF assms(5)]
  have "dropWhile is_space (pre @ tok @ post) = tok @ post"
    using assms(1,3) s(1) by (rule dropWhile_spaces)
  then have t: "trim (pre @ tok @ post) = tok"
    using trim_end_spaces [OF assms(2,3) e(1)] by (simp add: trim_def)
  have 1: "strip_json_fence tok = tok"
    using startsWith_backticks [OF assms(3) s(2)] by (simp add: strip_json_fence_def)
  have 2: "strip_open_fence tok = tok"
    using startsWith_backticks [OF assms(3) s(2)] by (simp add: strip_open_fence_def)
  have 3: "strip_close_fence tok = tok"
    using endsWith_backticks [OF assms(3) e(2)] by (simp add: strip_close_fence_def)
  show ?thesis by (simp add: clean_response_def t 1 2 3)
qed

lemma clean_fenced:
  assumes "\<forall>c\<in>set pre. is_space c" "\<forall>c\<in>set post. is_space c" "tok \<noteq> []"
    "value_start (hd tok)" "value_end (last tok)"
    and "lang = [] \<or> toLowerCase lang = ''json''"
    and "\<forall>c\<in>set ws1. is_space c" "\<forall>c\<in>set ws2. is_space c"
  shows "clean_response (fence lang ws1 ws2 (pre @ tok @ post)) = tok"
proof -
  note s = value_start_plain [OF assms(4)] and e = value_end_plain [OF assms(5)]
  let ?bt = "[CHR 0x60, CHR 0x60, CHR 0x60]"
  define rest where "rest = post @ ws2 @ ?bt"
  define B where "B = (ws1 @ pre) @ tok @ rest"
  define F where "F = fence lang ws1 ws2 (pre @ tok @ post)"
  have F: "F = ?bt @ lang @ B" by (simp add: F_def B_def rest_def fence_def)
  have sp: "\<forall>c\<in>set (ws1 @ pre). is_space c" using assms(1,7) by auto
  have sp2: "\<forall>c\<in>set (post @ ws2). is_space c" using assms(2,8) by auto
  have body: "dropWhile is_space B = tok @ rest"
    unfolding B_def using sp assms(3) s(1) by (rule dropWhile_spaces)
  have Bne: "B \<noteq> []" using assms(3) by (simp add: B_def)
  have Bhd: "lower_char (hd B) \<noteq> CHR ''j''"
  proof (cases "ws1 @ pre")
    case Nil
    then show ?thesis using assms(3) s(3) by (simp add: B_def)
  next
    case (Cons c cs)
    then have "is_space c" using sp by auto
    then show ?thesis using Cons is_space_lower by (simp add: B_def)
  qed
  have t: "trim F = F"
    by (rule trim_keeps) (simp_all add: F B_def rest_def is_space_def)
  have opened: "strip_open_fence (strip_json_fence F) = tok @ rest"
  proof (cases "lang = []")
    case True
    have nj: "toLowerCase (take 4 B) \<noteq> ''json''" using Bne Bhd by (rule not_json_tag)
    have "strip_json_fence F = F"
      unfolding F True using nj by (simp add: strip_json_fence_def startsWith_def)
    moreover have "strip_open_fence F = tok @ rest"
      unfolding F True using body by (simp add: strip_open_fence_def startsWith_def)
    ultimately show ?thesis by simp
  next
    case False
    then have l: "toLowerCase lang = ''json''" using assms(6) by simp
    have "length (toLowerCase lang) = 4" unfolding l by simp
    then have len: "length lang = 4" by (simp add: toLowerCase_def)
    have "strip_json_fence F = tok @ rest"
      unfolding F using l len body by (simp add: strip_json_fence_def startsWith_def)
    moreover have "tok @ rest \<noteq> []" "hd (tok @ rest) \<noteq> CHR 0x60"
      using assms(3) s(2) by simp_all
    then have "strip_open_fence (tok @ rest) = tok @ rest"
      using startsWith_backticks [of "tok @ rest"] by (simp add: strip_open_fence_def)
    ultimately show ?thesis by simp
  qed
  have r: "tok @ rest = (tok @ (post @ ws2)) @ ?bt" by (simp add: rest_def)
  have "strip_close_fence (tok @ rest) = trim_end (tok @ (post @ ws2))"
    unfolding r by (simp add: strip_close_fence_def endsWith_def)
  also have "\<dots> = tok" using sp2 assms(3) e(1) by (rule trim_end_spaces)
  finally show ?thesis
    using t opened by (simp add: clean_response_def F_def)
qed

lemma validate_response_steps:
  assumes "own_prop parsed ''steps'' = JArr xs"
  shows "\<exists>draft. validate_response parsed = Inr draft"
proof -
  obtain kvs where "parsed = JObj kvs" using assms by (cases parsed) simp_all
  then show ?thesis using assms by (simp add: validate_response_def get_prop_def)
qed

text \<open>
  Claim C9. A text the reference decoder accepts, put inside a code fence (with or
  without the \<^verbatim>\<open>json\<close> tag, in either case, white space around the text), is parsed
  to the same result as the text alone, whatever decoder the platform supplies. And a
  decoded response with an array of steps always yields a draft, with the same steps, in
  which a missing \<^verbatim>\<open>compatibilityWarnings\<close> is the empty list, a missing
  \<^verbatim>\<open>estimatedDuration\<close> is 19 and a missing \<^verbatim>\<open>tips\<close> is the empty list.
\<close>

theorem fenced_json_parses_alike:
  assumes "JSON_parse jt = Inr v"
    and "lang = [] \<or> toLowerCase lang = ''json''"
    and "\<forall>c\<in>set ws1. is_space c" and "\<forall>c\<in>set ws2. is_space c"
  shows "parse_ai_response parse (fence lang ws1 ws2 jt) = parse_ai_response parse jt
       \<and> (extract_and_decode parse (clean_response aiResponse) = Inr parsed
            \<and> own_prop parsed ''steps'' = JArr xs
          \<longrightarrow> (\<exists>draft. parse_ai_response parse aiResponse = Inr draft
                 \<and> own_prop draft ''steps'' = JArr xs
                 \<and> (own_prop parsed ''compatibilityWarnings'' = JUndefined
                      \<longrightarrow> own_prop draft ''compatibilityWarnings'' = JArr [])
                 \<and> (own_prop parsed ''estimatedDuration'' = JUndefined
                      \<longrightarrow> own_prop draft ''estimatedDuration'' = JNum 19)
                 \<and> (own_prop parsed ''tips'' = JUndefined
                      \<longrightarrow> own_prop draft ''tips'' = JArr [])))"
proof (intro conjI impI)
  from JSON_parse_shape [OF assms(1)]
  obtain pre tok post where sh: "jt = pre @ tok @ post"
    "\<forall>c\<in>set pre. json_ws c" "\<forall>c\<in>set post. json_ws c"
    "tok \<noteq> []" "value_start (hd tok)" "value_end (last tok)"
    by blast
  have sp: "\<forall>c\<in>set pre. is_space c" "\<forall>c\<in>set post. is_space c"
    using sh(2,3) json_ws_is_space by blast+
  have "clean_response (fence lang ws1 ws2 jt) = tok"
    unfolding sh(1) using sp sh(4,5,6) assms(2,3,4) by (rule clean_fenced)
  moreover have "clean_response jt = tok"
    unfolding sh(1) using sp sh(4,5,6) by (rule clean_plain)
  ultimately show "parse_ai_response parse (fence lang ws1 ws2 jt) = parse_ai_response parse jt"
    by (simp add: parse_ai_response_def)
next
  assume a: "extract_and_decode parse (clean_response aiResponse) = Inr parsed
            \<and> own_prop parsed ''steps'' = JArr xs"
  then obtain draft where d: "validate_response parsed = Inr draft"
    using validate_response_steps by blast
  then have p: "parse_ai_response parse aiResponse = Inr draft"
    using a by (simp add: parse_ai_response_def)
  note q = validate_response_prop [OF d]
  have "own_prop draft ''steps'' = JArr xs" using q [of "''steps''"] a by simp
  moreover have "own_prop parsed ''compatibilityWarnings'' = JUndefined
                   \<longrightarrow> own_prop draft ''compatibilityWarnings'' = JArr []"
    using q [of "''compatibilityWarnings''"] by simp
  moreover have "own_prop parsed ''estimatedDuration'' = JUndefined
                   \<longrightarrow> own_prop draft ''estimatedDuration'' = JNum 19"
    using q [of "''estimatedDuration''"] by simp
  moreover have "own_prop parsed ''tips'' = JUndefined \<longrightarrow> own_prop draft ''tips'' = JArr []"
    using q [of "''tips''"] by simp
  ultimately show "\<exists>draft. parse_ai_response parse aiResponse = Inr draft
                 \<and> own_prop draft ''steps'' = JArr xs
                 \<and> (own_prop parsed ''compatibilityWarnings'' = JUndefined
                      \<longrightarrow> own_prop draft ''compatibilityWarnings'' = JArr [])
                 \<and> (own_prop parsed ''estimatedDuration'' = JUndefined
                      \<longrightarrow> own_prop draft ''estimatedDuration'' = JNum 19)
                 \<and> (own_prop parsed ''tips'' = JUndefined
                      \<longrightarrow> own_prop draft ''tips'' = JArr [])"
    using p by blast
qed

theorem fenced_json_parses_alike_witness:
  "JSON_parse draft_zero = Inr parsed_zero
   \<and> parse_ai_response JSON_parse (fence ''json'' [CHR 0x0A] [CHR 0x0A] draft_zero) =
       parse_ai_response JSON_parse draft_zero
   \<and> (\<exists>draft. parse_ai_response JSON_parse draft_zero = Inr draft
        \<and> own_prop draft ''compatibilityWarnings'' = JArr []
        \<and> own_prop draft ''tips'' = JArr [])"
proof -
  have h: "JSON_parse draft_zero = Inr parsed_zero" by code_simp
  have e: "extract_and_decode JSON_parse (clean_response draft_zero) = Inr parsed_zero"
    by code_simp
  have l: "''json'' = [] \<or> toLowerCase ''json'' = ''json''" by code_simp
  have w: "\<forall>c\<in>set [CHR 0x0A]. is_space c" by (simp add: is_space_def)
  obtain xs where s: "own_prop parsed_zero ''steps'' = JArr xs"
    by (simp add: parsed_zero_def)
  have u: "own_prop parsed_zero ''compatibilityWarnings'' = JUndefined"
    "own_prop parsed_zero ''tips'' = JUndefined"
    by (simp_all add: parsed_zero_def)
  from fenced_json_parses_alike [OF h l w w, of JSON_parse draft_zero parsed_zero xs] e s u h
  show ?thesis by blast
qed

section \<open>The matcher\<close>

text \<open>
  Claim C2, as stated: a candidate that matches by a higher tier wins over one that
  matches only by a lower tier. It fails: the catalog is searched once, and the first
  product that matches by any tier is taken. Here the first product matches the
  suggestion only by tier 3 and is chosen over the second, which equals it.
\<close>

theorem matcher_tier_priority_counterexample:
  "find_match [foaming, cleanser] ''Cleanser'' = Some foaming
   \<and> \<not> tier1 foaming ''Cleanser'' \<and> \<not> tier2 foaming ''Cleanser'' \<and> tier3 foaming ''Cleanser''
   \<and> tier1 cleanser ''Cleanser''"
  by code_simp

text \<open>
  Claim C2, amended: the matcher resolves to at most one product, the first in catalog
  order that matches by any of the three tiers, and to none exactly when no product
  matches by any tier.
\<close>

theorem matcher_first_match:
  "(find_match ps productName = Some p \<longleftrightarrow>
      (\<exists>i<length ps. ps ! i = p
         \<and> (tier1 p productName \<or> tier2 p productName \<or> tier3 p productName)
         \<and> (\<forall>j<i. \<not> (tier1 (ps ! j) productName \<or> tier2 (ps ! j) productName
                       \<or> tier3 (ps ! j) productName))))
   \<and> (find_match ps productName = None \<longleftrightarrow>
      (\<forall>q\<in>set ps. \<not> (tier1 q productName \<or> tier2 q productName \<or> tier3 q productName)))"
  unfolding find_match_def matches_def find_Some_iff find_None_iff by blast

theorem matcher_first_match_witness:
  "find_match [cerave, niacinamide] ''foaming cleanser'' = Some cerave
   \<and> find_match [cerave, niacinamide] ''The Ordinary Niacinamide'' = Some niacinamide
   \<and> find_match [cerave, niacinamide] ''Retinol'' = None"
proof -
  have a: "tier3 cerave ''foaming cleanser''" by code_simp
  have b: "tier1 niacinamide ''The Ordinary Niacinamide''" by code_simp
  have c: "\<not> (tier1 cerave ''The Ordinary Niacinamide'' \<or> tier2 cerave ''The Ordinary Niacinamide''
              \<or> tier3 cerave ''The Ordinary Niacinamide'')" by code_simp
  have d: "\<forall>q\<in>set [cerave, niacinamide].
             \<not> (tier1 q ''Retinol'' \<or> tier2 q ''Retinol'' \<or> tier3 q ''Retinol'')"
    by code_simp
  have 1: "find_match [cerave, niacinamide] ''foaming cleanser'' = Some cerave"
    using a matcher_first_match [of "[cerave, niacinamide]" "''foaming cleanser''" cerave]
    by auto
  have 2: "find_match [cerave, niacinamide] ''The Ordinary Niacinamide'' = Some niacinamide"
  proof -
    have "\<exists>i<length [cerave, niacinamide]. [cerave, niacinamide] ! i = niacinamide
         \<and> (tier1 niacinamide ''The Ordinary Niacinamide'' \<or> tier2 niacinamide ''The Ordinary Niacinamide'' \<or> tier3 niacinamide ''The Ordinary Niacinamide'')
         \<and> (\<forall>j<i. \<not> (tier1 ([cerave, niacinamide] ! j) ''The Ordinary Niacinamide'' \<or> tier2 ([cerave, niacinamide] ! j) ''The Ordinary Niacinamide''
                       \<or> tier3 ([cerave, niacinamide] ! j) ''The Ordinary Niacinamide''))"
      using b c by (intro exI [of _ 1]) simp
    then show ?thesis
      using matcher_first_match [of "[cerave, niacinamide]" "''The Ordinary Niacinamide''" niacinamide]
      by blast
  qed
  have 3: "find_match [cerave, niacinamide] ''Retinol'' = None"
    using d matcher_first_match [of "[cerave, niacinamide]" "''Retinol''"] by blast
  show ?thesis using 1 2 3 by simp
qed

section \<open>Synthesis\<close>

text \<open>
  Claim C6. With fewer than three active products the regeneration answers
  \<^verbatim>\<open>insufficient_products\<close>, makes no completion call and leaves the routines alone.
\<close>

theorem insufficient_products_no_ai_call:
  assumes "length (find_active_products userId w) < 3"
  shows "fst (autoRegenerateRoutines pf userId w) =
           \<lparr>regenerated = False, reason = Some ''insufficient_products'', count = None,
            message = None\<rparr>
         \<and> ai_calls (snd (autoRegenerateRoutines pf userId w)) = ai_calls w
         \<and> routines (snd (autoRegenerateRoutines pf userId w)) = routines w"
  using assms by (simp add: autoRegenerateRoutines_def Let_def)

theorem insufficient_products_no_ai_call_witness:
  "length (find_active_products 1 (world_of [cerave, niacinamide] [])) = 2
   \<and> fst (autoRegenerateRoutines (mock_platform (\<lambda>t. Inr draft_full)) 1
             (world_of [cerave, niacinamide] [])) =
           \<lparr>regenerated = False, reason = Some ''insufficient_products'', count = None,
            message = None\<rparr>
   \<and> ai_calls (snd (autoRegenerateRoutines (mock_platform (\<lambda>t. Inr draft_full)) 1
             (world_of [cerave, niacinamide] []))) = []"
proof -
  have 1: "length (find_active_products 1 (world_of [cerave, niacinamide] [])) = 2"
    by code_simp
  have 2: "ai_calls (world_of [cerave, niacinamide] []) = []"
    by (simp add: world_of_def)
  from 1 have "length (find_active_products 1 (world_of [cerave, niacinamide] [])) < 3"
    by simp
  from insufficient_products_no_ai_call [OF this, of "mock_platform (\<lambda>t. Inr draft_full)"] 1 2
  show ?thesis by simp
qed

section \<open>The product handlers\<close>

lemma repair_routine_frame:
  "pending (repair_routine pid w r) = pending w"
  "products (repair_routine pid w r) = products w"
  "users (repair_routine pid w r) = users w"
  "ai_calls (repair_routine pid w r) = ai_calls w"
  by (simp_all add: repair_routine_def Let_def)

lemma foldl_repair_frame:
  "pending (foldl (repair_routine pid) w rs) = pending w"
  "products (foldl (repair_routine pid) w rs) = products w"
  "users (foldl (repair_routine pid) w rs) = users w"
  "ai_calls (foldl (repair_routine pid) w rs) = ai_calls w"
  by (induction rs arbitrary: w) (simp_all add: repair_routine_frame)

text \<open>
  Claim C8, as stated: after an update, regeneration is scheduled only if the type, the
  usage or the active flag changed. It fails: the handler looks at which fields the
  request carries, not at whether a value differs. Resubmitting \<^verbatim>\<open>isActive: true\<close> for
  an active product schedules a regeneration and leaves the catalog as it was.
\<close>

theorem regeneration_without_change_counterexample:
  "pending (snd (updateProduct (mock_platform (\<lambda>t. Inr draft_full)) 1 10 active_only
                  (world_of [cerave, niacinamide, hydro] []))) = [1]
   \<and> products (snd (updateProduct (mock_platform (\<lambda>t. Inr draft_full)) 1 10 active_only
                  (world_of [cerave, niacinamide, hydro] []))) = [cerave, niacinamide, hydro]"
  by code_simp

text \<open>
  Claim C8, amended: after a successful update, regeneration is scheduled exactly when
  the request body carries a truthy \<^verbatim>\<open>type\<close>, or carries \<^verbatim>\<open>usage\<close> or
  \<^verbatim>\<open>isActive\<close> at all; after a successful create or delete it is always scheduled.
\<close>

theorem regeneration_trigger:
  "(findById_product pid w = Some product \<and> p_user product = userId
      \<and> update_product pf body product = Inr p'
      \<longrightarrow> pending (snd (updateProduct pf userId pid body w)) =
            (if truthy (own_prop body ''type'') \<or> own_prop body ''usage'' \<noteq> JUndefined
                \<or> own_prop body ''isActive'' \<noteq> JUndefined
             then pending w @ [userId] else pending w))
   \<and> (create_product pf body = Inr p
      \<longrightarrow> pending (snd (createProduct pf userId body w)) = pending w @ [userId])
   \<and> (findById_product pid w = Some product \<and> p_user product = userId
      \<longrightarrow> pending (snd (deleteProduct pf userId pid w)) = pending w @ [userId])"
proof (intro conjI impI)
  assume "findById_product pid w = Some product \<and> p_user product = userId
      \<and> update_product pf body product = Inr p'"
  then show "pending (snd (updateProduct pf userId pid body w)) =
            (if truthy (own_prop body ''type'') \<or> own_prop body ''usage'' \<noteq> JUndefined
                \<or> own_prop body ''isActive'' \<noteq> JUndefined
             then pending w @ [userId] else pending w)"
    by (simp add: updateProduct_def significantChange_def schedule_regeneration_def Let_def)
next
  assume "create_product pf body = Inr p"
  then show "pending (snd (createProduct pf userId body w)) = pending w @ [userId]"
    by (simp add: createProduct_def schedule_regeneration_def)
next
  assume "findById_product pid w = Some product \<and> p_user product = userId"
  then show "pending (snd (deleteProduct pf userId pid w)) = pending w @ [userId]"
    by (simp add: deleteProduct_def schedule_regeneration_def Let_def foldl_repair_frame)
qed


theorem regeneration_trigger_witness:
  "pending (snd (updateProduct (mock_platform (\<lambda>t. Inr draft_full)) 1 10 name_only
                  (world_of [cerave, niacinamide, hydro] []))) = []
   \<and> pending (snd (updateProduct (mock_platform (\<lambda>t. Inr draft_full)) 1 10 active_only
                  (world_of [cerave, niacinamide, hydro] []))) = [1]
   \<and> pending (snd (createProduct (mock_platform (\<lambda>t. Inr draft_full)) 1 name_only
                  (world_of [cerave, niacinamide, hydro] []))) = [1]
   \<and> pending (snd (deleteProduct (mock_platform (\<lambda>t. Inr draft_full)) 1 10
                  (world_of [cerave, niacinamide, hydro] []))) = [1]"
proof -
  let ?pf = "mock_platform (\<lambda>t. Inr draft_full)"
  let ?w = "world_of [cerave, niacinamide, hydro] []"
  have f: "findById_product 10 ?w = Some cerave \<and> p_user cerave = 1" by code_simp
  have u1: "update_product ?pf name_only cerave = Inr (cerave\<lparr>p_name := ''CeraVe Cleanser''\<rparr>)"
    by code_simp
  have u2: "update_product ?pf active_only cerave = Inr cerave" by code_simp
  have c: "create_product ?pf name_only =
             Inr \<lparr>p_id = 0, p_user = 0, p_name = ''CeraVe Cleanser'', p_brand = [],
                  p_type = ''other'', p_usage = [], p_isActive = True\<rparr>"
    by code_simp
  have n: "\<not> truthy (own_prop name_only ''type'') \<and> own_prop name_only ''usage'' = JUndefined
           \<and> own_prop name_only ''isActive'' = JUndefined"
    by (simp add: name_only_def)
  have a: "own_prop active_only ''isActive'' \<noteq> JUndefined" by (simp add: active_only_def)
  have p: "pending ?w = []" by (simp add: world_of_def)
  note t = regeneration_trigger [of 10 ?w cerave 1 ?pf]
  from t [of name_only "cerave\<lparr>p_name := ''CeraVe Cleanser''\<rparr>"] f u1 n p
  have 1: "pending (snd (updateProduct ?pf 1 10 name_only ?w)) = []" by simp
  from t [of active_only cerave] f u2 a p
  have 2: "pending (snd (updateProduct ?pf 1 10 active_only ?w)) = [1]" by simp
  from t [of name_only _ "\<lparr>p_id = 0, p_user = 0, p_name = ''CeraVe Cleanser'', p_brand = [],
                  p_type = ''other'', p_usage = [], p_isActive = True\<rparr>"] f c p
  have 3: "pending (snd (createProduct ?pf 1 name_only ?w)) = [1]" by simp
  from t [of name_only] f p
  have 4: "pending (snd (deleteProduct ?pf 1 10 ?w)) = [1]" by simp
  show ?thesis using 1 2 3 4 by simp
qed

subsection \<open>Integrity repair\<close>














section \<open>Regeneration\<close>

lemma generate_world:
  "snd (generateSkincareRoutine pf rq w) = w\<lparr>ai_calls := ai_calls w @ [rq]\<rparr>"
  by (simp add: generateSkincareRoutine_def Let_def split: sum.splits)

lemma generate_result:
  "fst (generateSkincareRoutine pf rq w) = fst (generateSkincareRoutine pf rq w0)"
  by (simp add: generateSkincareRoutine_def Let_def split: sum.splits)

lemma draft_steps_world:
  "snd (draft_steps pf ps usr t w) = w\<lparr>ai_calls := ai_calls w @ requests ps usr t\<rparr>"
proof (cases usr)
  case None
  then show ?thesis by (simp add: draft_steps_def requests_def)
next
  case (Some u)
  let ?rq = "\<lparr>rq_products = ps, rq_type = t, rq_skinType = skinType u,
               rq_skinConcerns = skinConcerns u\<rparr>"
  obtain res w1 where g: "generateSkincareRoutine pf ?rq w = (res, w1)"
    by (cases "generateSkincareRoutine pf ?rq w")
  then have w1: "w1 = w\<lparr>ai_calls := ai_calls w @ [?rq]\<rparr>"
    using generate_world [of pf ?rq w] by simp
  show ?thesis
    using Some g w1
    by (simp add: draft_steps_def requests_def split: sum.splits jsv.splits)
qed

lemma draft_steps_result:
  "fst (draft_steps pf ps usr t w) = fst (draft_steps pf ps usr t w0)"
proof (cases usr)
  case None
  then show ?thesis by (simp add: draft_steps_def)
next
  case (Some u)
  let ?rq = "\<lparr>rq_products = ps, rq_type = t, rq_skinType = skinType u,
               rq_skinConcerns = skinConcerns u\<rparr>"
  obtain res w1 where g: "generateSkincareRoutine pf ?rq w = (res, w1)"
    by (cases "generateSkincareRoutine pf ?rq w")
  obtain res0 w2 where g0: "generateSkincareRoutine pf ?rq w0 = (res0, w2)"
    by (cases "generateSkincareRoutine pf ?rq w0")
  have "res = res0" using generate_result [of pf ?rq w w0] g g0 by simp
  then show ?thesis
    using Some g g0
    by (simp add: draft_steps_def split: sum.splits jsv.splits)
qed


lemma draft_steps_eq:
  "draft_steps pf ps usr t w =
     (fst (draft_steps pf ps usr t w0), w\<lparr>ai_calls := ai_calls w @ requests ps usr t\<rparr>)"
  using draft_steps_world [of pf ps usr t w] draft_steps_result [of pf ps usr t w w0]
  by (simp add: prod_eq_iff)

lemma regenerate_type_eq:
  "regenerate_type pf userId ps usr t w =
     (case fst (draft_steps pf ps usr t w0) of
        Inl e \<Rightarrow>
          (False, w\<lparr>ai_calls := ai_calls w @ requests ps usr t,
                     console := console w @ [CouldNotRegenerate t e]\<rparr>)
      | Inr (steps, d) \<Rightarrow>
          if steps = [] then (False, w\<lparr>ai_calls := ai_calls w @ requests ps usr t\<rparr>)
          else if routine_valid pf (new_routine_doc userId t steps d)
          then (True, create_routine (new_routine_doc userId t steps d)
                        (deleteMany_ai userId t (w\<lparr>ai_calls := ai_calls w @ requests ps usr t\<rparr>)))
          else (False, (deleteMany_ai userId t (w\<lparr>ai_calls := ai_calls w @ requests ps usr t\<rparr>))
                         \<lparr>console := console w @ [CouldNotRegenerate t ValidationError]\<rparr>))"
  unfolding regenerate_type_def
  by (subst draft_steps_eq [of pf ps usr t w w0])
     (simp add: deleteMany_ai_def Let_def split: sum.splits prod.splits)

lemma regenerate_type_ok:
  "fst (regenerate_type pf userId ps usr t w) = fst (regenerate_type pf userId ps usr t w0)"
  unfolding regenerate_type_eq [of pf userId ps usr t _ w0]
  by (simp split: sum.splits prod.splits)

lemma regenerate_type_frame:
  "products (snd (regenerate_type pf userId ps usr t w)) = products w"
  "users (snd (regenerate_type pf userId ps usr t w)) = users w"
  "pending (snd (regenerate_type pf userId ps usr t w)) = pending w"
  "ai_calls (snd (regenerate_type pf userId ps usr t w)) = ai_calls w @ requests ps usr t"
  unfolding regenerate_type_eq [of pf userId ps usr t w w]
  by (simp_all add: deleteMany_ai_def create_routine_def split: sum.splits prod.splits)

lemma regenerate_loop_Cons:
  "regenerate_loop pf userId ps usr (t # ts) c w =
     regenerate_loop pf userId ps usr ts
       (if fst (regenerate_type pf userId ps usr t w) then c + 1 else c)
       (snd (regenerate_type pf userId ps usr t w))"
  by (simp split: prod.splits)

lemma regenerate_loop_count:
  "fst (regenerate_loop pf userId ps usr ts c w) =
     c + length (filter (\<lambda>t. fst (regenerate_type pf userId ps usr t w0)) ts)"
proof (induction ts arbitrary: c w)
  case Nil
  then show ?case by simp
next
  case (Cons t ts)
  show ?case
    unfolding regenerate_loop_Cons Cons.IH
    using regenerate_type_ok [of pf userId ps usr t w w0] by simp
qed

lemma regenerate_loop_frame:
  "products (snd (regenerate_loop pf userId ps usr ts c w)) = products w"
  "users (snd (regenerate_loop pf userId ps usr ts c w)) = users w"
  "pending (snd (regenerate_loop pf userId ps usr ts c w)) = pending w"
  "ai_calls (snd (regenerate_loop pf userId ps usr ts c w)) =
     ai_calls w @ concat (map (requests ps usr) ts)"
  by (induction ts arbitrary: c w)
     (simp_all add: regenerate_loop_Cons regenerate_type_frame del: regenerate_loop.simps(2))

lemma regenerate_type_console:
  "console (snd (regenerate_type pf userId ps usr t w)) =
     console w @
       (case fst (draft_steps pf ps usr t w0) of
          Inl e \<Rightarrow> [CouldNotRegenerate t e]
        | Inr (steps, d) \<Rightarrow>
            if steps \<noteq> [] \<and> \<not> routine_valid pf (new_routine_doc userId t steps d)
            then [CouldNotRegenerate t ValidationError] else [])"
  unfolding regenerate_type_eq [of pf userId ps usr t w w0]
  by (simp add: deleteMany_ai_def create_routine_def split: sum.splits prod.splits)

lemma regenerate_loop_console:
  "console (snd (regenerate_loop pf userId ps usr ts c w)) =
     console w @
       concat (map (\<lambda>t. case fst (draft_steps pf ps usr t w0) of
                            Inl e \<Rightarrow> [CouldNotRegenerate t e]
                          | Inr (steps, d) \<Rightarrow>
                              if steps \<noteq> [] \<and> \<not> routine_valid pf (new_routine_doc userId t steps d)
                              then [CouldNotRegenerate t ValidationError] else []) ts)"
  by (induction ts arbitrary: c w)
     (simp_all add: regenerate_loop_Cons regenerate_type_console [where ?w0.0 = w0]
               del: regenerate_loop.simps(2))

lemma regenerate_type_replaces:
  assumes "fst (draft_steps pf ps usr t w0) = Inr (steps, d)" "steps \<noteq> []"
    "routine_valid pf (new_routine_doc userId t steps d)"
  shows "filter (is_ai_routine userId t) (routines (snd (regenerate_type pf userId ps usr t w))) =
           [\<lparr>r_user = userId, r_name = routine_name t, r_type = t, r_steps = steps,
             r_isAIGenerated = True,
             r_compatibilityWarnings = r_compatibilityWarnings (new_routine_doc userId t steps d),
             r_id = next_oid w\<rparr>]"
  unfolding regenerate_type_eq [of pf userId ps usr t w w0]
  using assms
  by (simp add: deleteMany_ai_def create_routine_def new_routine_doc_def is_ai_routine_def)

lemma regenerate_type_other:
  assumes "t' \<noteq> t"
  shows "filter (is_ai_routine userId t) (routines (snd (regenerate_type pf userId ps usr t' w))) =
           filter (is_ai_routine userId t) (routines w)"
proof -
  have f: "filter (is_ai_routine userId t) (filter (\<lambda>r. \<not> is_ai_routine userId t' r) rs) =
           filter (is_ai_routine userId t) rs" for rs
    using assms by (induction rs) (auto simp: is_ai_routine_def)
  have h: "\<not> is_ai_routine userId t r" if "r_type r = t'" for r :: routine
    using assms that by (auto simp: is_ai_routine_def)
  show ?thesis
    unfolding regenerate_type_eq [of pf userId ps usr t' w w]
    by (simp add: deleteMany_ai_def create_routine_def new_routine_doc_def f h
             split: sum.splits prod.splits del: filter_filter)
qed

lemma regenerate_loop_other:
  "t \<notin> set ts \<Longrightarrow>
   filter (is_ai_routine userId t) (routines (snd (regenerate_loop pf userId ps usr ts c w))) =
     filter (is_ai_routine userId t) (routines w)"
proof (induction ts arbitrary: c w)
  case Nil
  then show ?case by simp
next
  case (Cons t' ts)
  then have "t' \<noteq> t" "t \<notin> set ts" by auto
  then show ?case
    unfolding regenerate_loop_Cons
    using Cons.IH regenerate_type_other [of t' t userId pf ps usr w] by simp
qed

lemma regenerate_loop_replaces:
  assumes "fst (draft_steps pf ps usr t w0) = Inr (steps, d)" "steps \<noteq> []"
    "routine_valid pf (new_routine_doc userId t steps d)"
  shows "distinct ts \<Longrightarrow> t \<in> set ts \<Longrightarrow>
         \<exists>r. filter (is_ai_routine userId t)
                (routines (snd (regenerate_loop pf userId ps usr ts c w))) = [r]
              \<and> r_steps r = steps"
proof (induction ts arbitrary: c w)
  case Nil
  then show ?case by simp
next
  case (Cons t' ts)
  show ?case
  proof (cases "t' = t")
    case True
    then have "t \<notin> set ts" using Cons.prems(1) by simp
    then show ?thesis
      unfolding regenerate_loop_Cons True
      by (simp add: regenerate_loop_other regenerate_type_replaces [OF assms])
  next
    case False
    then have "distinct ts" "t \<in> set ts" using Cons.prems by auto
    then show ?thesis unfolding regenerate_loop_Cons by (rule Cons.IH)
  qed
qed

lemma autoRegenerateRoutines_world:
  assumes "3 \<le> length (find_active_products userId w)"
  shows "autoRegenerateRoutines pf userId w =
     (\<lparr>regenerated = True, reason = None,
       count = Some (fst (regenerate_loop pf userId (find_active_products userId w)
                           (findById_user userId w) routineTypes 0 w)),
       message = Some (digits_of (fst (regenerate_loop pf userId (find_active_products userId w)
                           (findById_user userId w) routineTypes 0 w)) @ '' routine(s) regenerated'')\<rparr>,
      snd (regenerate_loop pf userId (find_active_products userId w)
                           (findById_user userId w) routineTypes 0 w))"
  using assms by (simp add: autoRegenerateRoutines_def Let_def split: prod.splits)

subsection \<open>The sample platform, evaluated\<close>

lemma parse_draft_full: "parse_ai_response JSON_parse draft_full = Inr parsed_full"
  by code_simp

lemma parse_draft_gap: "parse_ai_response JSON_parse draft_gap = Inr parsed_gap"
  by code_simp

lemma bind_parsed_full:
  "\<exists>xs. own_prop parsed_full ''steps'' = JArr xs
        \<and> bind_steps [cerave, niacinamide, hydro] xs = Inr bound_full"
proof -
  let ?xs = "case own_prop parsed_full ''steps'' of JArr xs \<Rightarrow> xs | _ \<Rightarrow> []"
  have "own_prop parsed_full ''steps'' = JArr ?xs" by code_simp
  moreover have "bind_steps [cerave, niacinamide, hydro] ?xs = Inr bound_full" by code_simp
  ultimately show ?thesis by blast
qed

lemma bind_parsed_gap:
  "\<exists>xs. own_prop parsed_gap ''steps'' = JArr xs
        \<and> bind_steps [cerave, niacinamide, hydro] xs = Inr bound_gap"
proof -
  let ?xs = "case own_prop parsed_gap ''steps'' of JArr xs \<Rightarrow> xs | _ \<Rightarrow> []"
  have "own_prop parsed_gap ''steps'' = JArr ?xs" by code_simp
  moreover have "bind_steps [cerave, niacinamide, hydro] ?xs = Inr bound_gap" by code_simp
  ultimately show ?thesis by blast
qed

lemma mock_draft_full:
  assumes "answer t = Inr draft_full"
  shows "fst (draft_steps (mock_platform answer) [cerave, niacinamide, hydro]
                (Some sample_user) t w) = Inr (bound_full, parsed_full)"
proof -
  obtain xs where xs: "own_prop parsed_full ''steps'' = JArr xs"
    "bind_steps [cerave, niacinamide, hydro] xs = Inr bound_full"
    using bind_parsed_full by blast
  show ?thesis
    using assms xs
    by (simp add: draft_steps_def generateSkincareRoutine_def mock_platform_def
                  parse_draft_full Let_def)
qed

lemma mock_draft_gap:
  assumes "answer t = Inr draft_gap"
  shows "fst (draft_steps (mock_platform answer) [cerave, niacinamide, hydro]
                (Some sample_user) t w) = Inr (bound_gap, parsed_gap)"
proof -
  obtain xs where xs: "own_prop parsed_gap ''steps'' = JArr xs"
    "bind_steps [cerave, niacinamide, hydro] xs = Inr bound_gap"
    using bind_parsed_gap by blast
  show ?thesis
    using assms xs
    by (simp add: draft_steps_def generateSkincareRoutine_def mock_platform_def
                  parse_draft_gap Let_def)
qed

lemma mock_draft_fails:
  assumes "answer t = Inl m"
  shows "fst (draft_steps (mock_platform answer) ps (Some sample_user) t w) =
           Inl (ProviderError m)"
  using assms
  by (simp add: draft_steps_def generateSkincareRoutine_def mock_platform_def Let_def)

lemma sample_world:
  "find_active_products 1 (world_of [cerave, niacinamide, hydro] rs) = [cerave, niacinamide, hydro]"
  "findById_user 1 (world_of ps rs) = Some sample_user"
  by (simp_all add: find_active_products_def findById_user_def world_of_def cerave_def
                    niacinamide_def hydro_def sample_user_def)

lemma mock_valid: "routine_valid (mock_platform answer) d"
  by (simp add: mock_platform_def)

lemma digits_of_1: "digits_of (Suc 0) = ''1''"
  by code_simp

lemma fails_for_run:
  assumes "bad \<in> set routineTypes"
  shows "autoRegenerateRoutines (mock_platform (fails_for bad)) 1
           (world_of [cerave, niacinamide, hydro] []) =
         (\<lparr>regenerated = True, reason = None, count = Some 1,
           message = Some ''1 routine(s) regenerated''\<rparr>,
          snd (autoRegenerateRoutines (mock_platform (fails_for bad)) 1
                 (world_of [cerave, niacinamide, hydro] [])))
       \<and> console (snd (autoRegenerateRoutines (mock_platform (fails_for bad)) 1
                          (world_of [cerave, niacinamide, hydro] []))) =
           [CouldNotRegenerate bad (ProviderError ''Rate limit exceeded. Please try again later.'')]"
proof -
  let ?pf = "mock_platform (fails_for bad)"
  let ?ps = "[cerave, niacinamide, hydro]"
  let ?w = "world_of ?ps []"
  let ?e = "ProviderError ''Rate limit exceeded. Please try again later.''"
  have n: "3 \<le> length (find_active_products 1 ?w)" unfolding sample_world by simp
  have bad: "fst (draft_steps ?pf ?ps (Some sample_user) bad w) = Inl ?e" for w
    by (rule mock_draft_fails) (simp add: fails_for_def)
  have ok: "fst (draft_steps ?pf ?ps (Some sample_user) t w) = Inr (bound_full, parsed_full)"
    if "t \<noteq> bad" for t w
    by (rule mock_draft_full) (simp add: fails_for_def that)
  have ne: "bound_full \<noteq> []" by (simp add: bound_full_def)
  have rb: "fst (regenerate_type ?pf 1 ?ps (Some sample_user) bad w) = False" for w
    unfolding regenerate_type_eq [of ?pf 1 ?ps "Some sample_user" bad w w] bad by simp
  have ro: "fst (regenerate_type ?pf 1 ?ps (Some sample_user) t w) = True" if "t \<noteq> bad" for t w
    unfolding regenerate_type_eq [of ?pf 1 ?ps "Some sample_user" t w w] ok [OF that]
    by (simp add: ne mock_valid)
  have c: "fst (regenerate_loop ?pf 1 ?ps (Some sample_user) routineTypes 0 ?w) = 1"
    unfolding regenerate_loop_count [of ?pf 1 ?ps "Some sample_user" routineTypes 0 ?w ?w]
    using assms rb ro by (auto simp: routineTypes_def)
  have l: "console (snd (regenerate_loop ?pf 1 ?ps (Some sample_user) routineTypes 0 ?w)) =
             [CouldNotRegenerate bad ?e]"
    unfolding regenerate_loop_console [of ?pf 1 ?ps "Some sample_user" routineTypes 0 ?w ?w]
    using assms bad ok by (auto simp: routineTypes_def world_of_def ne mock_valid)
  show ?thesis
    unfolding autoRegenerateRoutines_world [OF n] sample_world
    using c l by (simp add: digits_of_1)
qed

subsection \<open>Step numbers after synthesis\<close>

text \<open>
  Claim C3. The repair after a delete renumbers the steps (see the renumbering lemmas
  above), but the synthesis stores the step numbers of the draft as they are and drops
  the steps it cannot bind: for a draft of three steps whose second names no product of
  the catalog, the two routines it stores have the steps numbered 1 and 3.
\<close>

theorem synthesis_copies_draft_numbers:
  "map (\<lambda>r. (r_type r, map stepNumber (r_steps r)))
     (routines (snd (autoRegenerateRoutines (mock_platform (\<lambda>t. Inr draft_gap)) 1
                       (world_of [cerave, niacinamide, hydro] [])))) =
     [(''morning'', [JNum 1, JNum 3]), (''night'', [JNum 1, JNum 3])]"
proof -
  let ?pf = "mock_platform (\<lambda>t. Inr draft_gap)"
  let ?ps = "[cerave, niacinamide, hydro]"
  let ?w = "world_of ?ps []"
  have n: "3 \<le> length (find_active_products 1 ?w)" unfolding sample_world by simp
  have d: "fst (draft_steps ?pf ?ps (Some sample_user) t w) = Inr (bound_gap, parsed_gap)" for t w
    by (rule mock_draft_gap) simp
  have r: "regenerate_type ?pf 1 ?ps (Some sample_user) t w =
             (True, create_routine (new_routine_doc 1 t bound_gap parsed_gap)
                      (deleteMany_ai 1 t (w\<lparr>ai_calls := ai_calls w @ requests ?ps (Some sample_user) t\<rparr>)))"
    for t w
    unfolding regenerate_type_eq [of ?pf 1 ?ps "Some sample_user" t w w] d
    by (simp add: mock_valid bound_gap_def)
  show ?thesis
    unfolding autoRegenerateRoutines_world [OF n] sample_world routineTypes_def
      regenerate_loop_Cons r
    by (simp add: create_routine_def deleteMany_ai_def new_routine_doc_def world_of_def
                  bound_gap_def is_ai_routine_def parsed_gap_def)
qed

subsection \<open>Replacing twice\<close>

text \<open>
  Claim C5. For a user with at least three active products and a routine type whose
  synthesis binds at least one step into a document the schema accepts: after one
  regeneration, and again after a second one on the resulting store with the same
  collaborators, exactly one AI-generated routine of that user and type exists, and both
  times its steps are the bound steps.
\<close>

theorem regeneration_is_idempotent:
  assumes "3 \<le> length (find_active_products userId w)"
    and "t \<in> set routineTypes"
    and "fst (draft_steps pf (find_active_products userId w) (findById_user userId w) t w) =
           Inr (steps, d)"
    and "steps \<noteq> []"
    and "routine_valid pf (new_routine_doc userId t steps d)"
  shows "\<exists>r1 r2.
           filter (is_ai_routine userId t) (routines (snd (autoRegenerateRoutines pf userId w))) = [r1]
         \<and> filter (is_ai_routine userId t)
             (routines (snd (autoRegenerateRoutines pf userId
                              (snd (autoRegenerateRoutines pf userId w))))) = [r2]
         \<and> r_steps r1 = steps \<and> r_steps r2 = steps"
proof -
  let ?ps = "find_active_products userId w"
  let ?usr = "findById_user userId w"
  let ?w1 = "snd (autoRegenerateRoutines pf userId w)"
  have d: "distinct routineTypes" by (simp add: routineTypes_def)
  have w1: "?w1 = snd (regenerate_loop pf userId ?ps ?usr routineTypes 0 w)"
    using autoRegenerateRoutines_world [OF assms(1)] by simp
  have ps1: "find_active_products userId ?w1 = ?ps"
    unfolding w1 by (simp add: find_active_products_def regenerate_loop_frame)
  have usr1: "findById_user userId ?w1 = ?usr"
    unfolding w1 by (simp add: findById_user_def regenerate_loop_frame)
  have "3 \<le> length (find_active_products userId ?w1)" using assms(1) ps1 by simp
  from autoRegenerateRoutines_world [OF this]
  have w2: "snd (autoRegenerateRoutines pf userId ?w1) =
              snd (regenerate_loop pf userId ?ps ?usr routineTypes 0 ?w1)"
    by (simp add: ps1 usr1)
  from regenerate_loop_replaces [OF assms(3,4,5) d assms(2), of 0 w]
  obtain r1 where r1: "filter (is_ai_routine userId t) (routines ?w1) = [r1]" "r_steps r1 = steps"
    unfolding w1 by blast
  from regenerate_loop_replaces [OF assms(3,4,5) d assms(2), of 0 ?w1]
  obtain r2 where r2: "filter (is_ai_routine userId t)
             (routines (snd (autoRegenerateRoutines pf userId ?w1))) = [r2]" "r_steps r2 = steps"
    unfolding w2 by blast
  show ?thesis using r1 r2 by blast
qed

theorem regeneration_is_idempotent_witness:
  "length (find_active_products 1 (world_of [cerave, niacinamide, hydro] stored_routines)) = 3
   \<and> ''morning'' \<in> set routineTypes
   \<and> (\<exists>r1 r2.
         filter (is_ai_routine 1 ''morning'')
           (routines (snd (autoRegenerateRoutines (mock_platform (\<lambda>t. Inr draft_full)) 1
                             (world_of [cerave, niacinamide, hydro] stored_routines)))) = [r1]
       \<and> filter (is_ai_routine 1 ''morning'')
           (routines (snd (autoRegenerateRoutines (mock_platform (\<lambda>t. Inr draft_full)) 1
                        (snd (autoRegenerateRoutines (mock_platform (\<lambda>t. Inr draft_full)) 1
                               (world_of [cerave, niacinamide, hydro] stored_routines)))))) = [r2]
       \<and> r_steps r1 = bound_full \<and> r_steps r2 = bound_full)"
proof -
  let ?pf = "mock_platform (\<lambda>t. Inr draft_full)"
  let ?ps = "[cerave, niacinamide, hydro]"
  let ?w = "world_of ?ps stored_routines"
  have 0: "length (find_active_products 1 ?w) = 3" unfolding sample_world by simp
  then have n: "3 \<le> length (find_active_products 1 ?w)" by simp
  have m: "''morning'' \<in> set routineTypes" by (simp add: routineTypes_def)
  have d: "fst (draft_steps ?pf (find_active_products 1 ?w) (findById_user 1 ?w) ''morning'' ?w) =
             Inr (bound_full, parsed_full)"
    unfolding sample_world by (rule mock_draft_full) simp
  have ne: "bound_full \<noteq> []" by (simp add: bound_full_def)
  from regeneration_is_idempotent [OF n m d ne mock_valid] 0 m
  show ?thesis by blast
qed

subsection \<open>What the regeneration returns\<close>

text \<open>
  Claim C7, as stated: each type's outcome, success or error, is reported in the returned
  value. It fails: a run in which the morning synthesis fails and a run in which the
  night synthesis fails return the same value; which type failed is only on the console.
\<close>

theorem returned_value_hides_failed_type_counterexample:
  "fst (autoRegenerateRoutines (mock_platform (fails_for ''morning'')) 1
          (world_of [cerave, niacinamide, hydro] [])) =
   fst (autoRegenerateRoutines (mock_platform (fails_for ''night'')) 1
          (world_of [cerave, niacinamide, hydro] []))
   \<and> console (snd (autoRegenerateRoutines (mock_platform (fails_for ''morning'')) 1
                      (world_of [cerave, niacinamide, hydro] []))) =
       [CouldNotRegenerate ''morning''
          (ProviderError ''Rate limit exceeded. Please try again later.'')]
   \<and> console (snd (autoRegenerateRoutines (mock_platform (fails_for ''night'')) 1
                      (world_of [cerave, niacinamide, hydro] []))) =
       [CouldNotRegenerate ''night''
          (ProviderError ''Rate limit exceeded. Please try again later.'')]"
proof -
  have m: "''morning'' \<in> set routineTypes" and n: "''night'' \<in> set routineTypes"
    by (simp_all add: routineTypes_def)
  have "fst (autoRegenerateRoutines (mock_platform (fails_for ''morning'')) 1
          (world_of [cerave, niacinamide, hydro] [])) =
        \<lparr>regenerated = True, reason = None, count = Some 1,
         message = Some ''1 routine(s) regenerated''\<rparr>"
    using fails_for_run [OF m] by (metis fst_conv)
  moreover have "fst (autoRegenerateRoutines (mock_platform (fails_for ''night'')) 1
          (world_of [cerave, niacinamide, hydro] [])) =
        \<lparr>regenerated = True, reason = None, count = Some 1,
         message = Some ''1 routine(s) regenerated''\<rparr>"
    using fails_for_run [OF n] by (metis fst_conv)
  ultimately show ?thesis using fails_for_run [OF m] fails_for_run [OF n] by simp
qed

text \<open>
  Claim C7, amended: with at least three active products the regeneration returns
  \<^verbatim>\<open>regenerated: true\<close> with the number of routine types whose own synthesis replaced a
  routine, each type judged as if it ran alone on the initial store, and a message with
  that number; a completion call is made for every type whatever happened to the one
  before; the error of a failed type is written to the console, not returned.
\<close>

theorem regeneration_reports_count_only:
  assumes "3 \<le> length (find_active_products userId w)"
  shows "fst (autoRegenerateRoutines pf userId w) =
           \<lparr>regenerated = True, reason = None,
            count = Some (length (filter
                      (\<lambda>t. fst (regenerate_type pf userId (find_active_products userId w)
                                  (findById_user userId w) t w)) routineTypes)),
            message = Some (digits_of (length (filter
                      (\<lambda>t. fst (regenerate_type pf userId (find_active_products userId w)
                                  (findById_user userId w) t w)) routineTypes))
                            @ '' routine(s) regenerated'')\<rparr>
         \<and> ai_calls (snd (autoRegenerateRoutines pf userId w)) =
             ai_calls w @ concat (map (requests (find_active_products userId w)
                                         (findById_user userId w)) routineTypes)
         \<and> (\<forall>t\<in>set routineTypes. \<forall>e.
               fst (draft_steps pf (find_active_products userId w) (findById_user userId w) t w)
                 = Inl e
               \<longrightarrow> CouldNotRegenerate t e \<in> set (console (snd (autoRegenerateRoutines pf userId w))))"
proof -
  let ?ps = "find_active_products userId w"
  let ?usr = "findById_user userId w"
  note a = autoRegenerateRoutines_world [OF assms, of pf]
  have 1: "fst (regenerate_loop pf userId ?ps ?usr routineTypes 0 w) =
             length (filter (\<lambda>t. fst (regenerate_type pf userId ?ps ?usr t w)) routineTypes)"
    using regenerate_loop_count [of pf userId ?ps ?usr routineTypes 0 w w] by simp
  have 3: "CouldNotRegenerate t e \<in> set (console (snd (autoRegenerateRoutines pf userId w)))"
    if "t \<in> set routineTypes" "fst (draft_steps pf ?ps ?usr t w) = Inl e" for t e
  proof -
    have "CouldNotRegenerate t e \<in>
            set (case fst (draft_steps pf ?ps ?usr t w) of
                   Inl e \<Rightarrow> [CouldNotRegenerate t e]
                 | Inr (steps, d) \<Rightarrow>
                     if steps \<noteq> [] \<and> \<not> routine_valid pf (new_routine_doc userId t steps d)
                     then [CouldNotRegenerate t ValidationError] else [])"
      using that(2) by simp
    then show ?thesis
      unfolding a using that(1)
      by (simp add: regenerate_loop_console [where ?w0.0 = w]) blast
  qed
  show ?thesis
    unfolding a using 1 3 unfolding a
    by (simp add: regenerate_loop_frame)
qed

theorem regeneration_reports_count_only_witness:
  "length (find_active_products 1 (world_of [cerave, niacinamide, hydro] [])) = 3
   \<and> fst (autoRegenerateRoutines (mock_platform (fails_for ''morning'')) 1
            (world_of [cerave, niacinamide, hydro] [])) =
       \<lparr>regenerated = True, reason = None, count = Some 1,
        message = Some ''1 routine(s) regenerated''\<rparr>
   \<and> map rq_type (ai_calls (snd (autoRegenerateRoutines (mock_platform (fails_for ''morning'')) 1
                                   (world_of [cerave, niacinamide, hydro] [])))) =
       [''morning'', ''night'']
   \<and> CouldNotRegenerate ''morning''
        (ProviderError ''Rate limit exceeded. Please try again later.'')
       \<in> set (console (snd (autoRegenerateRoutines (mock_platform (fails_for ''morning'')) 1
                              (world_of [cerave, niacinamide, hydro] []))))"
proof -
  let ?pf = "mock_platform (fails_for ''morning'')"
  let ?ps = "[cerave, niacinamide, hydro]"
  let ?w = "world_of ?ps []"
  let ?e = "ProviderError ''Rate limit exceeded. Please try again later.''"
  have n: "3 \<le> length (find_active_products 1 ?w)" unfolding sample_world by simp
  have bad: "fst (draft_steps ?pf ?ps (Some sample_user) ''morning'' w) = Inl ?e" for w
    by (rule mock_draft_fails) (simp add: fails_for_def)
  have ok: "fst (draft_steps ?pf ?ps (Some sample_user) ''night'' w) =
              Inr (bound_full, parsed_full)" for w
    by (rule mock_draft_full) (simp add: fails_for_def)
  have ne: "bound_full \<noteq> []" by (simp add: bound_full_def)
  have rb: "fst (regenerate_type ?pf 1 ?ps (Some sample_user) ''morning'' w) = False" for w
    unfolding regenerate_type_eq [of ?pf 1 ?ps "Some sample_user" "''morning''" w w] bad by simp
  have ro: "fst (regenerate_type ?pf 1 ?ps (Some sample_user) ''night'' w) = True" for w
    unfolding regenerate_type_eq [of ?pf 1 ?ps "Some sample_user" "''night''" w w] ok
    by (simp add: ne mock_valid)
  have m: "''morning'' \<in> set routineTypes" by (simp add: routineTypes_def)
  have c: "length (filter (\<lambda>t. fst (regenerate_type ?pf 1 ?ps (Some sample_user) t ?w))
                     routineTypes) = 1"
    using rb ro by (simp add: routineTypes_def)
  have a: "ai_calls ?w = []" by (simp add: world_of_def)
  from regeneration_reports_count_only [OF n, of ?pf]
  have t1: "fst (autoRegenerateRoutines ?pf 1 ?w) =
              \<lparr>regenerated = True, reason = None, count = Some 1,
               message = Some ''1 routine(s) regenerated''\<rparr>"
    and t2: "ai_calls (snd (autoRegenerateRoutines ?pf 1 ?w)) =
               concat (map (requests ?ps (Some sample_user)) routineTypes)"
    and t3: "\<And>t e. t \<in> set routineTypes \<Longrightarrow>
               fst (draft_steps ?pf ?ps (Some sample_user) t ?w) = Inl e \<Longrightarrow>
               CouldNotRegenerate t e \<in> set (console (snd (autoRegenerateRoutines ?pf 1 ?w)))"
    unfolding sample_world c a by (simp_all add: digits_of_1)
  have 2: "map rq_type (ai_calls (snd (autoRegenerateRoutines ?pf 1 ?w))) =
             [''morning'', ''night'']"
    unfolding t2 by (simp add: routineTypes_def requests_def)
  have 3: "CouldNotRegenerate ''morning'' ?e
             \<in> set (console (snd (autoRegenerateRoutines ?pf 1 ?w)))"
    using t3 [OF m bad] .
  have 0: "length (find_active_products 1 ?w) = 3" unfolding sample_world by simp
  show ?thesis using 0 t1 2 3 by blast
qed

end
